theory Spec2Isabelle
  imports Main
begin

text \<open>
  A verification development for the repository analytics-camara, an ETL pipeline that loads
  the open data of the Brazilian Chamber of Deputies into PostgreSQL. The sources at hand
  are the schema (\<^verbatim>\<open>app/database/DDL.sql\<close>), the transformation notebook
  (\<^verbatim>\<open>notebooks/transform.ipynb\<close>), two revisions of the container entrypoint
  (\<^verbatim>\<open>docker-entrypoint.sh\<close>), the Dockerfiles and the compose file.

  The definitions come first: the schema and the store it creates, the cells of the
  notebook, the entrypoint scripts, and last the Loader and the Watermark Store, which are
  modelled from the specification because the ingestion package is not among the sources.
  The lemmas and the theorems about them follow.
\<close>

section \<open>JSON values\<close>

text \<open>The raw API records, the nested columns of the parquet files and the \<^verbatim>\<open>JSONB\<close> columns of
  the store hold JSON: an object is a list of members in their order (their names distinct,
  as the keys of a \<^verbatim>\<open>dict\<close> are), a number is a decimal \<open>m * 10^e\<close>.\<close>

datatype json =
    JNull
  | JBool bool
  | JNum int int
  | JStr string
  | JArr "json list"
  | JObj "(string \<times> json) list"

section \<open>The relational schema (app/database/DDL.sql)\<close>

text \<open>
  The DDL is transcribed as data: five tables, each a list of columns with the type and the
  constraints the DDL writes, and four indexes. The store it creates is modelled with the
  statements a client sends it (\<^verbatim>\<open>INSERT\<close>, \<^verbatim>\<open>UPDATE\<close>, \<^verbatim>\<open>DELETE\<close>), each checked as
  PostgreSQL checks the constraints the DDL declares: \<^verbatim>\<open>NOT NULL\<close>, \<^verbatim>\<open>PRIMARY KEY\<close>,
  \<^verbatim>\<open>REFERENCES\<close> (which is \<^verbatim>\<open>NO ACTION\<close> when the DDL says nothing else) and the default of a
  \<^verbatim>\<open>SERIAL\<close> column.
\<close>

subsection \<open>Column types and values\<close>

text \<open>The column types the DDL uses. No column is declared \<^verbatim>\<open>REAL\<close>, \<^verbatim>\<open>FLOAT\<close> or
  \<^verbatim>\<open>DOUBLE PRECISION\<close>.\<close>

datatype sql_type = INTEGER | SERIAL | VARCHAR | TEXT | DATE | TIMESTAMP | NUMERIC | JSONB | BOOLEAN

text \<open>A \<^verbatim>\<open>NUMERIC\<close> value is an exact decimal, an unscaled integer and a scale
  (\<open>Dec 1250 2\<close> is 12.50), or one of PostgreSQL's special values.\<close>

datatype numeric = Dec int nat | NaN | PosInfinity | NegInfinity

text \<open>A value of a row: SQL \<^verbatim>\<open>NULL\<close>, or a value of one of the types. A date is a day
  number, a timestamp a number of microseconds. The JSON value \<open>JsonV JNull\<close> is not SQL
  \<^verbatim>\<open>NULL\<close>.\<close>

datatype val =
    Null
  | IntV int
  | StrV string
  | NumV numeric
  | BoolV bool
  | DateV int
  | TimestampV int
  | JsonV json

text \<open>\<^verbatim>\<open>INTEGER\<close> and \<^verbatim>\<open>SERIAL\<close> hold 32-bit signed integers. A value comes with its type:
  the casts PostgreSQL would apply on assignment (an integer given for a \<^verbatim>\<open>NUMERIC\<close> column)
  and the bounds of dates and timestamps are not modelled.\<close>

fun conforms :: "sql_type \<Rightarrow> val \<Rightarrow> bool" where
  "conforms INTEGER (IntV i) = (- 2147483648 \<le> i \<and> i \<le> 2147483647)"
| "conforms SERIAL (IntV i) = (- 2147483648 \<le> i \<and> i \<le> 2147483647)"
| "conforms VARCHAR (StrV s) = True"
| "conforms TEXT (StrV s) = True"
| "conforms DATE (DateV d) = True"
| "conforms TIMESTAMP (TimestampV u) = True"
| "conforms NUMERIC (NumV n) = True"
| "conforms JSONB (JsonV j) = True"
| "conforms BOOLEAN (BoolV b) = True"
| "conforms _ _ = False"

subsection \<open>The tables\<close>

datatype table_name = Deputados | Despesas | Discursos | Votacoes | Votos

record column =
  cname :: string
  ctype :: sql_type
  not_null :: bool
  primary_key :: bool
  references :: "(table_name \<times> string) option"

text \<open>The column constraints, written as the DDL writes them, after the column.\<close>

definition col :: "string \<Rightarrow> sql_type \<Rightarrow> column" where
  "col n t = \<lparr>cname = n, ctype = t, not_null = False, primary_key = False, references = None\<rparr>"

definition NOT_NULL :: "column \<Rightarrow> column" where
  "NOT_NULL c = c\<lparr>not_null := True\<rparr>"

definition PRIMARY_KEY :: "column \<Rightarrow> column" where
  "PRIMARY_KEY c = c\<lparr>primary_key := True\<rparr>"

definition REFERENCES :: "table_name \<Rightarrow> string \<Rightarrow> column \<Rightarrow> column" where
  "REFERENCES t n c = c\<lparr>references := Some (t, n)\<rparr>"

definition deputados :: "column list" where
  "deputados =
    [PRIMARY_KEY (col ''id'' INTEGER),
     NOT_NULL (col ''uri'' VARCHAR),
     NOT_NULL (col ''nome_civil'' VARCHAR),
     col ''cpf'' VARCHAR,
     col ''sexo'' VARCHAR,
     col ''url_website'' VARCHAR,
     col ''data_nascimento'' DATE,
     col ''data_falecimento'' DATE,
     col ''uf_nascimento'' VARCHAR,
     col ''municipio_nascimento'' VARCHAR,
     col ''escolaridade'' VARCHAR,
     col ''ultimo_status_id'' INTEGER,
     col ''ultimo_status_nome'' VARCHAR,
     col ''ultimo_status_sigla_partido'' VARCHAR,
     col ''ultimo_status_uri_partido'' VARCHAR,
     col ''ultimo_status_sigla_uf'' VARCHAR,
     col ''ultimo_status_id_legislatura'' INTEGER,
     col ''ultimo_status_url_foto'' VARCHAR,
     col ''ultimo_status_email'' VARCHAR,
     col ''ultimo_status_data'' DATE,
     col ''ultimo_status_nome_eleitoral'' VARCHAR,
     col ''ultimo_status_gabinete'' JSONB,
     col ''ultimo_status_situacao'' VARCHAR,
     col ''ultimo_status_condicao_eleitoral'' VARCHAR,
     col ''ultimo_status_descricao'' VARCHAR]"

definition despesas :: "column list" where
  "despesas =
    [PRIMARY_KEY (col ''id'' SERIAL),
     REFERENCES Deputados ''id'' (NOT_NULL (col ''deputado_id'' INTEGER)),
     NOT_NULL (col ''ano'' INTEGER),
     NOT_NULL (col ''mes'' INTEGER),
     NOT_NULL (col ''tipo_despesa'' VARCHAR),
     NOT_NULL (col ''cod_documento'' INTEGER),
     NOT_NULL (col ''tipo_documento'' VARCHAR),
     NOT_NULL (col ''cod_tipo_documento'' INTEGER),
     NOT_NULL (col ''data_documento'' DATE),
     NOT_NULL (col ''num_documento'' VARCHAR),
     NOT_NULL (col ''valor_documento'' NUMERIC),
     NOT_NULL (col ''url_documento'' VARCHAR),
     NOT_NULL (col ''nome_fornecedor'' VARCHAR),
     NOT_NULL (col ''cnpj_cpf_fornecedor'' VARCHAR),
     NOT_NULL (col ''valor_liquido'' NUMERIC),
     NOT_NULL (col ''valor_glosa'' NUMERIC),
     col ''num_ressarcimento'' VARCHAR,
     col ''cod_lote'' INTEGER,
     col ''parcela'' INTEGER]"

definition discursos :: "column list" where
  "discursos =
    [PRIMARY_KEY (col ''id'' SERIAL),
     REFERENCES Deputados ''id'' (NOT_NULL (col ''deputado_id'' INTEGER)),
     NOT_NULL (col ''data_hora_inicio'' TIMESTAMP),
     col ''data_hora_fim'' TIMESTAMP,
     col ''fase_evento'' JSONB,
     NOT_NULL (col ''tipo_discurso'' VARCHAR),
     col ''url_texto'' VARCHAR,
     col ''url_audio'' VARCHAR,
     col ''url_video'' VARCHAR,
     col ''keywords'' VARCHAR,
     col ''sumario'' TEXT,
     col ''transcricao'' TEXT]"

definition votacoes :: "column list" where
  "votacoes =
    [PRIMARY_KEY (col ''id'' VARCHAR),
     NOT_NULL (col ''uri'' VARCHAR),
     NOT_NULL (col ''data'' DATE),
     NOT_NULL (col ''data_hora_registro'' TIMESTAMP),
     NOT_NULL (col ''sigla_orgao'' VARCHAR),
     NOT_NULL (col ''uri_orgao'' VARCHAR),
     col ''proposicao_objeto'' JSONB,
     NOT_NULL (col ''tipo_votacao'' JSONB),
     col ''ultima_apresentacao_proposicao'' JSONB,
     NOT_NULL (col ''aprovacao'' BOOLEAN)]"

definition votos :: "column list" where
  "votos =
    [PRIMARY_KEY (col ''id'' SERIAL),
     REFERENCES Votacoes ''id'' (NOT_NULL (col ''votacao_id'' VARCHAR)),
     REFERENCES Deputados ''id'' (NOT_NULL (col ''deputado_id'' INTEGER)),
     NOT_NULL (col ''data_registro_voto'' TIMESTAMP),
     NOT_NULL (col ''tipo_voto'' VARCHAR)]"

fun schema :: "table_name \<Rightarrow> column list" where
  "schema Deputados = deputados"
| "schema Despesas = despesas"
| "schema Discursos = discursos"
| "schema Votacoes = votacoes"
| "schema Votos = votos"

definition all_tables :: "table_name list" where
  "all_tables = [Deputados, Despesas, Discursos, Votacoes, Votos]"

text \<open>The \<^verbatim>\<open>CREATE INDEX\<close> statements. None of them is \<^verbatim>\<open>CREATE UNIQUE INDEX\<close>.\<close>

record index_def =
  iname :: string
  itable :: table_name
  icolumn :: string
  iunique :: bool

definition CREATE_INDEX :: "string \<Rightarrow> table_name \<Rightarrow> string \<Rightarrow> index_def" where
  "CREATE_INDEX n t c = \<lparr>iname = n, itable = t, icolumn = c, iunique = False\<rparr>"

definition indexes :: "index_def list" where
  "indexes =
    [CREATE_INDEX ''idx_despesas_deputado_id'' Despesas ''deputado_id'',
     CREATE_INDEX ''idx_discursos_deputado_id'' Discursos ''deputado_id'',
     CREATE_INDEX ''idx_votos_deputado_id'' Votos ''deputado_id'',
     CREATE_INDEX ''idx_votos_votacao_id'' Votos ''votacao_id'']"

text \<open>A primary key and a \<^verbatim>\<open>SERIAL\<close> column are \<^verbatim>\<open>NOT NULL\<close> without saying so.\<close>

definition required :: "column \<Rightarrow> bool" where
  "required c \<longleftrightarrow> not_null c \<or> primary_key c \<or> ctype c = SERIAL"

text \<open>The columns whose values the store keeps unique: the primary key, and the column of
  each unique index.\<close>

definition unique_cols :: "table_name \<Rightarrow> string list" where
  "unique_cols t =
     map cname (filter primary_key (schema t)) @
     map icolumn (filter (\<lambda>i. itable i = t \<and> iunique i) indexes)"

text \<open>The foreign keys a table declares: the referenced table, the referencing column and
  the referenced column.\<close>

definition fks_of :: "table_name \<Rightarrow> (table_name \<times> string \<times> string) list" where
  "fks_of t2 =
     concat (map (\<lambda>c. case references c of None \<Rightarrow> [] | Some (t, n) \<Rightarrow> [(t, cname c, n)])
       (schema t2))"

text \<open>The foreign keys that point at table \<open>t\<close>: the referencing table, its column and the
  referenced column.\<close>

definition referencing :: "table_name \<Rightarrow> (table_name \<times> string \<times> string) list" where
  "referencing t =
     concat (map (\<lambda>t2. map (\<lambda>(t', n2, n). (t2, n2, n))
                          (filter (\<lambda>(t', n2, n). t' = t) (fks_of t2))) all_tables)"

subsection \<open>The store\<close>

text \<open>A stored row lists its columns in the table's order, each with its value. The store
  holds the rows of each table in insertion order and the last value of the sequence behind
  each table's \<^verbatim>\<open>SERIAL\<close> column. The DDL creates the tables empty.\<close>

type_synonym row = "(string \<times> val) list"

record database =
  rows :: "table_name \<Rightarrow> row list"
  last_value :: "table_name \<Rightarrow> int"

definition empty_db :: database where
  "empty_db = \<lparr>rows = (\<lambda>t. []), last_value = (\<lambda>t. 0)\<rparr>"

definition get :: "row \<Rightarrow> string \<Rightarrow> val" where
  "get r n = (case map_of r n of Some v \<Rightarrow> v | None \<Rightarrow> Null)"

definition column_values :: "database \<Rightarrow> table_name \<Rightarrow> string \<Rightarrow> val list" where
  "column_values db t n = map (\<lambda>r. get r n) (rows db t)"

datatype db_error =
    UndefinedColumn string
  | DuplicateColumn
  | DatatypeMismatch string
  | SequenceLimit
  | NotNullViolation string
  | UniqueViolation string
  | ForeignKeyViolation string

text \<open>A statement runs in its own transaction: it is done, or it fails and leaves every
  table as it was. A sequence is not rolled back: a failed \<^verbatim>\<open>INSERT\<close> that took a value keeps
  it taken.\<close>

datatype outcome = Done database | Failed db_error database

fun db_of :: "outcome \<Rightarrow> database" where
  "db_of (Done db) = db"
| "db_of (Failed e db) = db"

fun is_done :: "outcome \<Rightarrow> bool" where
  "is_done (Done db) = True"
| "is_done (Failed e db) = False"

definition type_ok :: "column \<Rightarrow> val \<Rightarrow> bool" where
  "type_ok c v \<longleftrightarrow> v = Null \<or> conforms (ctype c) v"

text \<open>The names of \<^verbatim>\<open>INSERT INTO t (names)\<close> and of \<^verbatim>\<open>UPDATE t SET name = ...\<close> are columns
  of the table, each at most once, and each value has its column's type.\<close>

definition check_names :: "table_name \<Rightarrow> (string \<times> val) list \<Rightarrow> db_error option" where
  "check_names t given =
     (case find (\<lambda>n. n \<notin> set (map cname (schema t))) (map fst given) of
        Some n \<Rightarrow> Some (UndefinedColumn n)
      | None \<Rightarrow>
          if \<not> distinct (map fst given) then Some DuplicateColumn
          else (case find (\<lambda>c. \<not> type_ok c (get given (cname c))) (schema t) of
                  Some c \<Rightarrow> Some (DatatypeMismatch (cname c))
                | None \<Rightarrow> None))"

text \<open>The row an \<^verbatim>\<open>INSERT\<close> builds: a column that is not named takes its default, the next
  value of the sequence for a \<^verbatim>\<open>SERIAL\<close> column and \<^verbatim>\<open>NULL\<close> otherwise.\<close>

fun fill_row :: "column list \<Rightarrow> (string \<times> val) list \<Rightarrow> int \<Rightarrow> row \<times> int" where
  "fill_row [] given sq = ([], sq)"
| "fill_row (c # cs) given sq =
     (case map_of given (cname c) of
        Some v \<Rightarrow> (let (r, sq') = fill_row cs given sq in ((cname c, v) # r, sq'))
      | None \<Rightarrow>
          if ctype c = SERIAL
          then (let (r, sq') = fill_row cs given (sq + 1)
                in ((cname c, IntV (sq + 1)) # r, sq'))
          else (let (r, sq') = fill_row cs given sq in ((cname c, Null) # r, sq')))"

definition check_not_null :: "table_name \<Rightarrow> row \<Rightarrow> db_error option" where
  "check_not_null t r =
     (case find (\<lambda>c. required c \<and> get r (cname c) = Null) (schema t) of
        Some c \<Rightarrow> Some (NotNullViolation (cname c))
      | None \<Rightarrow> None)"

text \<open>The foreign keys of a row of \<open>t\<close>: a value that is not \<^verbatim>\<open>NULL\<close> is the value of the
  referenced column in some row of the referenced table.\<close>

definition check_references :: "database \<Rightarrow> table_name \<Rightarrow> row \<Rightarrow> db_error option" where
  "check_references db t r =
     (case find (\<lambda>(t', n2, n). get r n2 \<noteq> Null \<and> get r n2 \<notin> set (column_values db t' n))
             (fks_of t) of
        Some (t', n2, n) \<Rightarrow> Some (ForeignKeyViolation n2)
      | None \<Rightarrow> None)"

definition set_rows :: "table_name \<Rightarrow> row list \<Rightarrow> database \<Rightarrow> database" where
  "set_rows t rs db = db\<lparr>rows := (rows db)(t := rs)\<rparr>"

text \<open>\<^verbatim>\<open>INSERT INTO t (names) VALUES (values)\<close>.\<close>

definition insert_into :: "table_name \<Rightarrow> (string \<times> val) list \<Rightarrow> database \<Rightarrow> outcome" where
  "insert_into t given db =
     (case check_names t given of
        Some e \<Rightarrow> Failed e db
      | None \<Rightarrow>
          (let (r, sq) = fill_row (schema t) given (last_value db t) in
           if sq > 2147483647 then Failed SequenceLimit db
           else
             (let db1 = db\<lparr>last_value := (last_value db)(t := sq)\<rparr> in
              case check_not_null t r of
                Some e \<Rightarrow> Failed e db1
              | None \<Rightarrow>
                  (case find (\<lambda>n. get r n \<noteq> Null \<and> get r n \<in> set (column_values db t n))
                          (unique_cols t) of
                     Some n \<Rightarrow> Failed (UniqueViolation n) db1
                   | None \<Rightarrow>
                       (case check_references db t r of
                          Some e \<Rightarrow> Failed e db1
                        | None \<Rightarrow> Done (set_rows t (rows db t @ [r]) db1))))))"

text \<open>\<^verbatim>\<open>DELETE FROM t WHERE p\<close>. The foreign keys are \<^verbatim>\<open>NO ACTION\<close>: the statement fails when
  a foreign key dangles, that is when a row still refers to a key that only the rows that
  are gone had.\<close>

fun dangling :: "database \<Rightarrow> table_name \<Rightarrow> row list \<Rightarrow> table_name \<times> string \<times> string \<Rightarrow> bool" where
  "dangling db t gone (t2, n2, n) \<longleftrightarrow>
     (\<exists>v \<in> set (column_values db t2 n2).
        v \<noteq> Null \<and> v \<in> set (map (\<lambda>r. get r n) gone) \<and> v \<notin> set (column_values db t n))"

definition delete_from :: "table_name \<Rightarrow> (row \<Rightarrow> bool) \<Rightarrow> database \<Rightarrow> outcome" where
  "delete_from t p db =
     (let db' = set_rows t (filter (\<lambda>r. \<not> p r) (rows db t)) db in
      case find (dangling db' t (filter p (rows db t))) (referencing t) of
        Some (t2, n2, n) \<Rightarrow> Failed (ForeignKeyViolation n2) db
      | None \<Rightarrow> Done db')"

text \<open>\<^verbatim>\<open>UPDATE t SET name = value, ... WHERE p\<close>, each value a constant.\<close>

definition assign :: "(string \<times> val) list \<Rightarrow> row \<Rightarrow> row" where
  "assign sets r = map (\<lambda>(n, v). (n, case map_of sets n of Some v' \<Rightarrow> v' | None \<Rightarrow> v)) r"

definition update_set :: "table_name \<Rightarrow> (string \<times> val) list \<Rightarrow> (row \<Rightarrow> bool) \<Rightarrow> database \<Rightarrow> outcome" where
  "update_set t sets p db =
     (case check_names t sets of
        Some e \<Rightarrow> Failed e db
      | None \<Rightarrow>
          (let changed = map (assign sets) (filter p (rows db t));
               db' = set_rows t (map (\<lambda>r. if p r then assign sets r else r) (rows db t)) db in
           case find (\<lambda>r. check_not_null t r \<noteq> None) changed of
             Some r \<Rightarrow> Failed (the (check_not_null t r)) db
           | None \<Rightarrow>
               (case find (\<lambda>n. \<not> distinct (filter (\<lambda>v. v \<noteq> Null) (column_values db' t n)))
                       (unique_cols t) of
                  Some n \<Rightarrow> Failed (UniqueViolation n) db
                | None \<Rightarrow>
                    (case find (\<lambda>r. check_references db' t r \<noteq> None) changed of
                       Some r \<Rightarrow> Failed (the (check_references db' t r)) db
                     | None \<Rightarrow>
                         (case find (dangling db' t (filter p (rows db t))) (referencing t) of
                            Some (t2, n2, n) \<Rightarrow> Failed (ForeignKeyViolation n2) db
                          | None \<Rightarrow> Done db')))))"

text \<open>The statements a client can send, and a session of them: each runs in its own
  transaction, and a failed one does not stop the session.\<close>

datatype statement =
    INSERT table_name "(string \<times> val) list"
  | DELETE table_name "row \<Rightarrow> bool"
  | UPDATE table_name "(string \<times> val) list" "row \<Rightarrow> bool"

fun exec :: "statement \<Rightarrow> database \<Rightarrow> outcome" where
  "exec (INSERT t given) db = insert_into t given db"
| "exec (DELETE t p) db = delete_from t p db"
| "exec (UPDATE t sets p) db = update_set t sets p db"

fun run :: "statement list \<Rightarrow> database \<Rightarrow> database" where
  "run [] db = db"
| "run (s # ss) db = run ss (db_of (exec s db))"

subsection \<open>What the constraints keep true\<close>

text \<open>A row of table \<open>t\<close> has the table's columns in order; a \<^verbatim>\<open>NULL\<close> stands only in a
  column that allows it, and any other value has the column's type.\<close>

definition row_ok :: "table_name \<Rightarrow> row \<Rightarrow> bool" where
  "row_ok t r \<longleftrightarrow>
     map fst r = map cname (schema t) \<and>
     (\<forall>c \<in> set (schema t).
        if get r (cname c) = Null then \<not> required c else conforms (ctype c) (get r (cname c)))"

definition typed :: "database \<Rightarrow> bool" where
  "typed db \<longleftrightarrow> (\<forall>t. \<forall>r \<in> set (rows db t). row_ok t r) \<and> (\<forall>t. 0 \<le> last_value db t)"

text \<open>No two rows of a table share a value that is not \<^verbatim>\<open>NULL\<close> in a unique column.\<close>

definition keyed :: "database \<Rightarrow> bool" where
  "keyed db \<longleftrightarrow>
     (\<forall>t. \<forall>n \<in> set (unique_cols t). distinct (filter (\<lambda>v. v \<noteq> Null) (column_values db t n)))"

text \<open>Every foreign key that is not \<^verbatim>\<open>NULL\<close> is the key of a row of the referenced table.\<close>

definition linked :: "database \<Rightarrow> bool" where
  "linked db \<longleftrightarrow>
     (\<forall>t. \<forall>(t', n2, n) \<in> set (fks_of t). \<forall>r \<in> set (rows db t).
        get r n2 = Null \<or> get r n2 \<in> set (column_values db t' n))"

definition valid :: "database \<Rightarrow> bool" where
  "valid db \<longleftrightarrow> typed db \<and> keyed db \<and> linked db"

subsection \<open>The natural keys and a sample session\<close>

text \<open>The natural keys of the dependent tables: an expense by deputy, document code, year
  and month; a speech by deputy and start; a vote by voting session and deputy.\<close>

definition expense_key :: "row \<Rightarrow> val \<times> val \<times> val \<times> val" where
  "expense_key r = (get r ''deputado_id'', get r ''cod_documento'', get r ''ano'', get r ''mes'')"

definition speech_key :: "row \<Rightarrow> val \<times> val" where
  "speech_key r = (get r ''deputado_id'', get r ''data_hora_inicio'')"

definition vote_key :: "row \<Rightarrow> val \<times> val" where
  "vote_key r = (get r ''votacao_id'', get r ''deputado_id'')"

text \<open>One deputy, one voting session, and one expense, one speech and one vote of that
  deputy, as the columns and values of an \<^verbatim>\<open>INSERT\<close>.\<close>

definition a_deputado :: "(string \<times> val) list" where
  "a_deputado =
    [(''id'', IntV 204554),
     (''uri'', StrV ''https://dadosabertos.camara.leg.br/api/v2/deputados/204554''),
     (''nome_civil'', StrV ''ABILIO'')]"

definition a_votacao :: "(string \<times> val) list" where
  "a_votacao =
    [(''id'', StrV ''2265603-43''),
     (''uri'', StrV ''https://dadosabertos.camara.leg.br/api/v2/votacoes/2265603-43''),
     (''data'', DateV 19737),
     (''data_hora_registro'', TimestampV 1705312800000000),
     (''sigla_orgao'', StrV ''PLEN''),
     (''uri_orgao'', StrV ''https://dadosabertos.camara.leg.br/api/v2/orgaos/180''),
     (''tipo_votacao'', JsonV (JObj [(''nome'', JStr ''Nominal'')])),
     (''aprovacao'', BoolV True)]"

definition a_voto :: "(string \<times> val) list" where
  "a_voto =
    [(''votacao_id'', StrV ''2265603-43''),
     (''deputado_id'', IntV 204554),
     (''data_registro_voto'', TimestampV 1705312860000000),
     (''tipo_voto'', StrV ''Sim'')]"

definition a_despesa :: "(string \<times> val) list" where
  "a_despesa =
    [(''deputado_id'', IntV 204554),
     (''ano'', IntV 2024),
     (''mes'', IntV 1),
     (''tipo_despesa'', StrV ''TELEFONIA''),
     (''cod_documento'', IntV 7654321),
     (''tipo_documento'', StrV ''Nota Fiscal''),
     (''cod_tipo_documento'', IntV 0),
     (''data_documento'', DateV 19737),
     (''num_documento'', StrV ''000123''),
     (''valor_documento'', NumV (Dec 12345 2)),
     (''url_documento'', StrV ''https://www.camara.leg.br/cota-parlamentar/documentos/7654321.pdf''),
     (''nome_fornecedor'', StrV ''TELECOM SA''),
     (''cnpj_cpf_fornecedor'', StrV ''00000000000191''),
     (''valor_liquido'', NumV (Dec 12310 2)),
     (''valor_glosa'', NumV (Dec 35 2))]"

definition a_discurso :: "(string \<times> val) list" where
  "a_discurso =
    [(''deputado_id'', IntV 204554),
     (''data_hora_inicio'', TimestampV 1705312800000000),
     (''tipo_discurso'', StrV ''BREVES COMUNICACOES'')]"

text \<open>A session that loads the deputy and the voting session once and each dependent
  record twice, as a load that is run again does with plain \<^verbatim>\<open>INSERT\<close>s.\<close>

definition load_twice :: "statement list" where
  "load_twice =
    [INSERT Deputados a_deputado, INSERT Votacoes a_votacao,
     INSERT Despesas a_despesa, INSERT Discursos a_discurso, INSERT Votos a_voto,
     INSERT Despesas a_despesa, INSERT Discursos a_discurso, INSERT Votos a_voto]"

section \<open>The transformation notebook (notebooks/transform.ipynb)\<close>

text \<open>
  The notebook reads four parquet files into pandas frames and derives a cleaned frame from
  each (\<open>votacoes_raw\<close>, \<open>deputados_raw\<close>, \<open>votos_raw\<close> and \<open>detalhes_raw\<close> below are
  the frames read). A frame is modelled by its columns in order, each a name and the cells of the
  column; the rows are numbered from 0 in every frame (the default index of
  \<^verbatim>\<open>read_parquet\<close> and of \<^verbatim>\<open>json_normalize\<close>). A cell is a JSON value: \<open>JNull\<close> is a missing
  value (\<^verbatim>\<open>None\<close>, \<^verbatim>\<open>NaN\<close>, \<^verbatim>\<open>pd.NA\<close>), \<open>JObj\<close> a \<^verbatim>\<open>dict\<close>, \<open>JNum m 0\<close> the \<^verbatim>\<open>int\<close> \<open>m\<close>, and
  any other \<open>JNum\<close> a \<^verbatim>\<open>float\<close>, written as a decimal. An exception is a value of the
  result.
\<close>

datatype py_error = KeyError string | TypeError | AttributeError

type_synonym series = "json list"
type_synonym frame = "(string \<times> series) list"

text \<open>\<^verbatim>\<open>df[name]\<close>.\<close>

definition getitem :: "frame \<Rightarrow> string \<Rightarrow> py_error + series" where
  "getitem df name = (case map_of df name of Some s \<Rightarrow> Inr s | None \<Rightarrow> Inl (KeyError name))"

text \<open>\<^verbatim>\<open>df[[name, ...]]\<close>: the named columns in the order asked for, \<^verbatim>\<open>KeyError\<close> when one
  is not a column of the frame.\<close>

fun select :: "frame \<Rightarrow> string list \<Rightarrow> py_error + frame" where
  "select df [] = Inr []"
| "select df (n # ns) =
     (case getitem df n of
        Inl e \<Rightarrow> Inl e
      | Inr s \<Rightarrow> (case select df ns of Inl e \<Rightarrow> Inl e | Inr rest \<Rightarrow> Inr ((n, s) # rest)))"

text \<open>\<^verbatim>\<open>df[name] = series\<close>: the series is aligned with the rows of the frame (a row without
  a cell gets a missing value, a cell without a row is dropped), then it replaces the column
  of that name, or becomes the last column. The frames of the notebook have at least one
  column when a column is set.\<close>

definition nrows :: "frame \<Rightarrow> nat" where
  "nrows df = (case df of [] \<Rightarrow> 0 | (n, s) # rest \<Rightarrow> length s)"

definition align :: "nat \<Rightarrow> series \<Rightarrow> series" where
  "align n s = take n s @ replicate (n - length s) JNull"

definition setitem :: "frame \<Rightarrow> string \<Rightarrow> series \<Rightarrow> frame" where
  "setitem df name s =
     (if name \<in> set (map fst df)
      then map (\<lambda>(n, c). if n = name then (n, align (nrows df) s) else (n, c)) df
      else df @ [(name, align (nrows df) s)])"

text \<open>\<^verbatim>\<open>x[key]\<close> for a string key: a \<^verbatim>\<open>dict\<close> gives its member or \<^verbatim>\<open>KeyError\<close>; \<^verbatim>\<open>None\<close>, a
  number, a string and a list give \<^verbatim>\<open>TypeError\<close>.\<close>

fun subscript :: "json \<Rightarrow> string \<Rightarrow> py_error + json" where
  "subscript (JObj kvs) k = (case map_of kvs k of Some v \<Rightarrow> Inr v | None \<Rightarrow> Inl (KeyError k))"
| "subscript JNull k = Inl TypeError"
| "subscript (JBool b) k = Inl TypeError"
| "subscript (JNum m e) k = Inl TypeError"
| "subscript (JStr s) k = Inl TypeError"
| "subscript (JArr xs) k = Inl TypeError"

subsection \<open>The dtype of a new column\<close>

text \<open>When pandas builds a column from Python objects (the results of \<^verbatim>\<open>Series.apply\<close>, the
  members of the dicts given to \<^verbatim>\<open>DataFrame\<close>), it infers the dtype of the column
  (\<^verbatim>\<open>lib.maybe_convert_objects\<close>): a column of numbers and missing values only, with a missing
  value or a \<^verbatim>\<open>float\<close> among them, is a \<^verbatim>\<open>float64\<close> column, and every \<^verbatim>\<open>int\<close> of it becomes
  the nearest \<^verbatim>\<open>float64\<close>; any other column keeps its objects as they are (\<^verbatim>\<open>int64\<close>, \<^verbatim>\<open>bool\<close> or
  \<^verbatim>\<open>object\<close>).

  \<open>float64 n\<close> is the whole number that \<^verbatim>\<open>float(n)\<close> holds: \<open>n\<close> rounded to 53 significant bits,
  to the nearest, a tie to the even one. The integers of a parquet file have 64 bits at
  most; an \<^verbatim>\<open>int\<close> of more bits is outside the model (it can make the column an \<^verbatim>\<open>object\<close>
  column, or be too large for a \<^verbatim>\<open>float\<close>).\<close>

function excess_bits :: "int \<Rightarrow> nat" where
  "excess_bits n = (if n < 9007199254740992 then 0 else Suc (excess_bits (n div 2)))"
  by pat_completeness auto
termination
  by (relation "measure nat") auto

definition round_half_even :: "int \<Rightarrow> nat \<Rightarrow> int" where
  "round_half_even n k =
     (let q = n div 2 ^ k; r = n mod 2 ^ k
      in (if 2 ^ k < 2 * r \<or> (2 * r = 2 ^ k \<and> odd q) then q + 1 else q) * 2 ^ k)"

definition float64 :: "int \<Rightarrow> int" where
  "float64 n =
     (if n < 0 then - round_half_even (- n) (excess_bits (- n))
      else round_half_even n (excess_bits n))"

fun is_number :: "json \<Rightarrow> bool" where
  "is_number (JNum m e) = True"
| "is_number v = False"

fun is_float :: "json \<Rightarrow> bool" where
  "is_float (JNum m e) = (e \<noteq> 0)"
| "is_float v = False"

fun to_float64 :: "json \<Rightarrow> json" where
  "to_float64 (JNum m e) = (if e = 0 then JNum (float64 m) 0 else JNum m e)"
| "to_float64 v = v"

definition maybe_convert_objects :: "series \<Rightarrow> series" where
  "maybe_convert_objects ys =
     (if (\<forall>y \<in> set ys. is_number y \<or> y = JNull) \<and> (\<exists>y \<in> set ys. y = JNull \<or> is_float y)
      then map to_float64 ys else ys)"

text \<open>\<^verbatim>\<open>lib.map_infer(values, f, convert=False)\<close>: \<open>f\<close> on every cell in order; the first
  exception ends it.\<close>

fun map_infer :: "(json \<Rightarrow> py_error + json) \<Rightarrow> series \<Rightarrow> py_error + series" where
  "map_infer f [] = Inr []"
| "map_infer f (x # xs) =
     (case f x of
        Inl e \<Rightarrow> Inl e
      | Inr y \<Rightarrow> (case map_infer f xs of Inl e \<Rightarrow> Inl e | Inr ys \<Rightarrow> Inr (y # ys)))"

text \<open>\<^verbatim>\<open>series.apply(f)\<close>: the results of \<open>f\<close> on the cells, as a column of the dtype
  inferred.\<close>

definition series_apply :: "(json \<Rightarrow> py_error + json) \<Rightarrow> series \<Rightarrow> py_error + series" where
  "series_apply f xs =
     (case map_infer f xs of Inl e \<Rightarrow> Inl e | Inr ys \<Rightarrow> Inr (maybe_convert_objects ys))"

text \<open>\<^verbatim>\<open>df.convert_dtypes()\<close> gives each column the best dtype that supports \<^verbatim>\<open>pd.NA\<close> (object to
  string, whole floats to \<^verbatim>\<open>Int64\<close>, ...). It parses no dates and changes no cell: a missing
  value is \<open>JNull\<close> here whatever the dtype.\<close>

definition convert_dtypes :: "frame \<Rightarrow> frame" where
  "convert_dtypes df = df"

subsection \<open>json_normalize\<close>

text \<open>\<^verbatim>\<open>pd.json_normalize(series)\<close> with no other argument, as pandas 2 has it (the notebook
  runs on Python 3.12): every cell that is a \<^verbatim>\<open>dict\<close> is flattened, its nested dicts
  becoming members named \<^verbatim>\<open>outer.inner\<close>; every other cell counts as the empty \<^verbatim>\<open>dict\<close>. The
  frame has a column for every member name, in the order of first appearance, and a missing
  value where a cell has no such member.

  A Python \<^verbatim>\<open>dict\<close> keeps one value per key, at the place where the key came first.\<close>

fun dict_set :: "string \<Rightarrow> json \<Rightarrow> (string \<times> json) list \<Rightarrow> (string \<times> json) list" where
  "dict_set k v [] = [(k, v)]"
| "dict_set k v ((k', v') # d) = (if k' = k then (k, v) # d else (k', v') # dict_set k v d)"

fun is_dict :: "json \<Rightarrow> bool" where
  "is_dict (JObj kvs) = True"
| "is_dict v = False"

text \<open>\<^verbatim>\<open>_normalise_json(data, key_string, normalized_dict, separator=".")\<close>.\<close>

fun normalise_json :: "json \<Rightarrow> string \<Rightarrow> (string \<times> json) list \<Rightarrow> (string \<times> json) list"
  and normalise_items :: "(string \<times> json) list \<Rightarrow> string \<Rightarrow> (string \<times> json) list \<Rightarrow> (string \<times> json) list"
  where
  "normalise_json (JObj kvs) key_string d = normalise_items kvs key_string d"
| "normalise_json JNull key_string d = dict_set key_string JNull d"
| "normalise_json (JBool b) key_string d = dict_set key_string (JBool b) d"
| "normalise_json (JNum m e) key_string d = dict_set key_string (JNum m e) d"
| "normalise_json (JStr s) key_string d = dict_set key_string (JStr s) d"
| "normalise_json (JArr xs) key_string d = dict_set key_string (JArr xs) d"
| "normalise_items [] key_string d = d"
| "normalise_items ((k, v) # kvs) key_string d =
     normalise_items kvs key_string
       (normalise_json v (if key_string = [] then k else key_string @ ''.'' @ k) d)"

text \<open>\<^verbatim>\<open>_normalise_json_ordered(data, separator=".")\<close>: the members that are not dicts
  first, then the flattened nested dicts, merged as \<^verbatim>\<open>{**top, **nested}\<close>.\<close>

definition normalise_json_ordered :: "(string \<times> json) list \<Rightarrow> (string \<times> json) list" where
  "normalise_json_ordered kvs =
     fold (\<lambda>(k, v). dict_set k v)
       (normalise_json (JObj (filter (\<lambda>(k, v). is_dict v) kvs)) [] [])
       (filter (\<lambda>(k, v). \<not> is_dict v) kvs)"

text \<open>\<^verbatim>\<open>_simple_json_normalize(ds)\<close> for one cell. A cell that is a list is outside the
  model (a struct column of a parquet file holds dicts and \<^verbatim>\<open>None\<close> only): there
  \<open>json_normalize\<close> is given the result \<^verbatim>\<open>AttributeError\<close>.\<close>

fun simple_json_normalize :: "json \<Rightarrow> (string \<times> json) list" where
  "simple_json_normalize (JObj kvs) = normalise_json_ordered kvs"
| "simple_json_normalize v = []"

fun is_list :: "json \<Rightarrow> bool" where
  "is_list (JArr xs) = True"
| "is_list v = False"

text \<open>\<^verbatim>\<open>DataFrame(list of dicts)\<close>: a column for every member name, with the dtype
  inferred.\<close>

definition first_seen :: "string list \<Rightarrow> string list" where
  "first_seen ks = fold (\<lambda>k acc. if k \<in> set acc then acc else acc @ [k]) ks []"

definition member_or_na :: "(string \<times> json) list \<Rightarrow> string \<Rightarrow> json" where
  "member_or_na d k = (case map_of d k of Some v \<Rightarrow> v | None \<Rightarrow> JNull)"

definition frame_of_dicts :: "(string \<times> json) list list \<Rightarrow> frame" where
  "frame_of_dicts ds =
     map (\<lambda>k. (k, maybe_convert_objects (map (\<lambda>d. member_or_na d k) ds)))
       (first_seen (concat (map (map fst) ds)))"

definition json_normalize :: "series \<Rightarrow> py_error + frame" where
  "json_normalize data =
     (if \<exists>x \<in> set data. is_list x then Inl AttributeError
      else Inr (frame_of_dicts (map simple_json_normalize data)))"

subsection \<open>The cells of the notebook\<close>

text \<open>\<^verbatim>\<open>votacoes_clean\<close> and \<^verbatim>\<open>deputados_clean\<close>: a selection of columns.\<close>

definition votacoes_clean :: "frame \<Rightarrow> py_error + frame" where
  "votacoes_clean votacoes_raw =
     (case select votacoes_raw
             [''id'', ''data'', ''siglaOrgao'', ''proposicaoObjeto'', ''descricao'', ''aprovacao''] of
        Inl e \<Rightarrow> Inl e
      | Inr df \<Rightarrow> Inr (convert_dtypes df))"

definition deputados_clean :: "frame \<Rightarrow> py_error + frame" where
  "deputados_clean deputados_raw =
     (case select deputados_raw
             [''id'', ''nome'', ''siglaPartido'', ''siglaUf'', ''idLegislatura'', ''urlFoto'',
              ''email''] of
        Inl e \<Rightarrow> Inl e
      | Inr df \<Rightarrow> Inr (convert_dtypes df))"

text \<open>\<^verbatim>\<open>votos_clean\<close>: a selection, and the column \<^verbatim>\<open>deputadoId\<close> from
  \<^verbatim>\<open>votos_clean['deputado_'].apply(lambda x: x['id'])\<close>.\<close>

definition votos_clean :: "frame \<Rightarrow> py_error + frame" where
  "votos_clean votos_raw =
     (case select votos_raw [''idVotacao'', ''tipoVoto'', ''dataRegistroVoto'', ''deputado_''] of
        Inl e \<Rightarrow> Inl e
      | Inr df \<Rightarrow>
          (case getitem df ''deputado_'' of
             Inl e \<Rightarrow> Inl e
           | Inr s \<Rightarrow>
               (case series_apply (\<lambda>x. subscript x ''id'') s of
                  Inl e \<Rightarrow> Inl e
                | Inr ids \<Rightarrow> Inr (convert_dtypes (setitem df ''deputadoId'' ids)))))"

text \<open>\<^verbatim>\<open>df[dst] = src[name]\<close>.\<close>

definition copy_column :: "frame \<Rightarrow> string \<Rightarrow> frame \<Rightarrow> string \<Rightarrow> py_error + frame" where
  "copy_column df dst src name =
     (case getitem src name of Inl e \<Rightarrow> Inl e | Inr s \<Rightarrow> Inr (setitem df dst s))"

text \<open>\<^verbatim>\<open>detalhes_deputados_clean\<close>: a selection, and five columns from the normalised
  \<^verbatim>\<open>ultimoStatus\<close>.\<close>

definition detalhes_deputados_clean :: "frame \<Rightarrow> py_error + frame" where
  "detalhes_deputados_clean detalhes_raw =
     (case select detalhes_raw
             [''id'', ''nomeCivil'', ''ultimoStatus'', ''dataNascimento'', ''municipioNascimento'',
              ''ufNascimento'', ''escolaridade'', ''sexo''] of
        Inl e \<Rightarrow> Inl e
      | Inr df0 \<Rightarrow>
     (case getitem df0 ''ultimoStatus'' of
        Inl e \<Rightarrow> Inl e
      | Inr status \<Rightarrow>
     (case json_normalize status of
        Inl e \<Rightarrow> Inl e
      | Inr ultimo_status_df \<Rightarrow>
     (case copy_column df0 ''condicaoEleitoral'' ultimo_status_df ''condicaoEleitoral'' of
        Inl e \<Rightarrow> Inl e
      | Inr df1 \<Rightarrow>
     (case copy_column df1 ''situacao'' ultimo_status_df ''situacao'' of
        Inl e \<Rightarrow> Inl e
      | Inr df2 \<Rightarrow>
     (case copy_column df2 ''dataUltimoStatus'' ultimo_status_df ''data'' of
        Inl e \<Rightarrow> Inl e
      | Inr df3 \<Rightarrow>
     (case copy_column df3 ''telefone'' ultimo_status_df ''gabinete.telefone'' of
        Inl e \<Rightarrow> Inl e
      | Inr df4 \<Rightarrow>
     (case copy_column df4 ''siglaPartido'' ultimo_status_df ''siglaPartido'' of
        Inl e \<Rightarrow> Inl e
      | Inr df5 \<Rightarrow> Inr (convert_dtypes df5)))))))))"

subsection \<open>Sample frames\<close>

text \<open>The nested deputy of a vote and the status block of a deputy, as the API gives
  them.\<close>

definition voto_deputado :: json where
  "voto_deputado =
     JObj [(''id'', JNum 204554 0), (''nome'', JStr ''Abilio Santana''),
           (''siglaPartido'', JStr ''PSC''), (''siglaUf'', JStr ''BA''),
           (''idLegislatura'', JNum 57 0)]"

definition a_status :: json where
  "a_status =
     JObj [(''id'', JNum 204554 0), (''nome'', JStr ''Abilio Santana''),
           (''siglaPartido'', JStr ''PSC''), (''siglaUf'', JStr ''BA''),
           (''idLegislatura'', JNum 57 0), (''data'', JStr ''2023-02-01T11:45''),
           (''nomeEleitoral'', JStr ''Abilio Santana''),
           (''gabinete'',
              JObj [(''nome'', JStr ''531''), (''predio'', JStr ''4''), (''sala'', JStr ''531''),
                    (''andar'', JStr ''5''), (''telefone'', JStr ''3215-5531''),
                    (''email'', JStr ''dep.abiliosantana@camara.leg.br'')]),
           (''situacao'', JStr ''Exercicio''), (''condicaoEleitoral'', JStr ''Titular''),
           (''descricaoStatus'', JNull)]"

text \<open>Two votes; in \<open>votos_without_deputy\<close> the second has no nested deputy.\<close>

definition votos_sample :: frame where
  "votos_sample =
    [(''idVotacao'', [JStr ''2265603-43'', JStr ''2265603-43'']),
     (''dataRegistroVoto'', [JStr ''2024-01-15T10:01:00'', JStr ''2024-01-15T10:01:07'']),
     (''tipoVoto'', [JStr ''Sim'', JStr ''Nao'']),
     (''deputado_'', [voto_deputado, JObj [(''id'', JNum 74646 0), (''nome'', JStr ''Aecio Neves'')]])]"

definition votos_without_deputy :: frame where
  "votos_without_deputy =
    [(''idVotacao'', [JStr ''2265603-43'', JStr ''2265603-43'']),
     (''dataRegistroVoto'', [JStr ''2024-01-15T10:01:00'', JStr ''2024-01-15T10:01:07'']),
     (''tipoVoto'', [JStr ''Sim'', JStr ''Nao'']),
     (''deputado_'', [voto_deputado, JNull])]"

text \<open>Two votes whose second nested deputy has a missing \<^verbatim>\<open>id\<close> (what \<^verbatim>\<open>read_parquet\<close> gives
  for a record without one), and two votes whose first nested deputy has an \<^verbatim>\<open>id\<close> above
  \<open>2^53\<close> as well.\<close>

definition votos_null_id :: frame where
  "votos_null_id =
    [(''idVotacao'', [JStr ''2265603-43'', JStr ''2265603-43'']),
     (''dataRegistroVoto'', [JStr ''2024-01-15T10:01:00'', JStr ''2024-01-15T10:01:07'']),
     (''tipoVoto'', [JStr ''Sim'', JStr ''Nao'']),
     (''deputado_'', [voto_deputado, JObj [(''id'', JNull), (''nome'', JStr ''Aecio Neves'')]])]"

definition votos_large_id :: frame where
  "votos_large_id =
    [(''idVotacao'', [JStr ''2265603-43'', JStr ''2265603-43'']),
     (''dataRegistroVoto'', [JStr ''2024-01-15T10:01:00'', JStr ''2024-01-15T10:01:07'']),
     (''tipoVoto'', [JStr ''Sim'', JStr ''Nao'']),
     (''deputado_'',
        [JObj [(''id'', JNum 9007199254740993 0), (''nome'', JStr ''Abilio Santana'')],
         JObj [(''id'', JNull), (''nome'', JStr ''Aecio Neves'')]])]"

text \<open>The cells that a \<^verbatim>\<open>float64\<close> column holds as they are: every cell but an \<^verbatim>\<open>int\<close> above
  \<open>2^53\<close> in magnitude. The \<^verbatim>\<open>int\<close> cells of a parquet file: 64 bits, signed.\<close>

fun exact_in_float64 :: "json \<Rightarrow> bool" where
  "exact_in_float64 (JNum m e) = (e = 0 \<longrightarrow> \<bar>m\<bar> \<le> 9007199254740992)"
| "exact_in_float64 v = True"

fun fits_int64 :: "json \<Rightarrow> bool" where
  "fits_int64 (JNum m e) = (e = 0 \<longrightarrow> - 9223372036854775808 \<le> m \<and> m < 9223372036854775808)"
| "fits_int64 v = True"

text \<open>Two deputies; the second has no status block.\<close>

definition detalhes_sample :: frame where
  "detalhes_sample =
    [(''id'', [JNum 204554 0, JNum 74646 0]),
     (''uri'', [JStr ''https://dadosabertos.camara.leg.br/api/v2/deputados/204554'',
               JStr ''https://dadosabertos.camara.leg.br/api/v2/deputados/74646'']),
     (''nomeCivil'', [JStr ''ABILIO'', JStr ''AECIO'']),
     (''ultimoStatus'', [a_status, JNull]),
     (''cpf'', [JStr ''00000000191'', JNull]),
     (''sexo'', [JStr ''M'', JStr ''M'']),
     (''dataNascimento'', [JStr ''1965-02-13'', JStr ''1960-03-10'']),
     (''ufNascimento'', [JStr ''BA'', JStr ''MG'']),
     (''municipioNascimento'', [JStr ''Salvador'', JStr ''Belo Horizonte'']),
     (''escolaridade'', [JStr ''Superior'', JStr ''Superior''])]"

definition votacoes_sample :: frame where
  "votacoes_sample =
    [(''id'', [JStr ''2265603-43'']),
     (''uri'', [JStr ''https://dadosabertos.camara.leg.br/api/v2/votacoes/2265603-43'']),
     (''data'', [JStr ''2024-01-15'']),
     (''dataHoraRegistro'', [JStr ''2024-01-15T10:00:00'']),
     (''siglaOrgao'', [JStr ''PLEN'']),
     (''proposicaoObjeto'', [JObj [(''id'', JNum 2265603 0), (''siglaTipo'', JStr ''PL'')]]),
     (''descricao'', [JStr ''Aprovado o projeto'']),
     (''aprovacao'', [JNum 1 0])]"

text \<open>The columns the cells select, and the columns \<^verbatim>\<open>detalhes_deputados_clean\<close> adds.\<close>

definition votos_selected :: "string list" where
  "votos_selected = [''idVotacao'', ''tipoVoto'', ''dataRegistroVoto'', ''deputado_'']"

definition detalhes_selected :: "string list" where
  "detalhes_selected =
     [''id'', ''nomeCivil'', ''ultimoStatus'', ''dataNascimento'', ''municipioNascimento'',
      ''ufNascimento'', ''escolaridade'', ''sexo'']"

definition detalhes_added :: "string list" where
  "detalhes_added =
     [''condicaoEleitoral'', ''situacao'', ''dataUltimoStatus'', ''telefone'', ''siglaPartido'']"

definition votacoes_selected :: "string list" where
  "votacoes_selected =
     [''id'', ''data'', ''siglaOrgao'', ''proposicaoObjeto'', ''descricao'', ''aprovacao'']"

text \<open>A deputy with a nested office, as an \<^verbatim>\<open>INSERT\<close> into \<^verbatim>\<open>deputados\<close>.\<close>

definition a_deputado_with_office :: "(string \<times> val) list" where
  "a_deputado_with_office =
     a_deputado @
     [(''ultimo_status_gabinete'',
       JsonV (JObj [(''nome'', JStr ''531''), (''telefone'', JStr ''3215-5531'')]))]"

text \<open>The columns of a result, and one of them by name; none when the cell raised.\<close>

definition columns_of :: "py_error + frame \<Rightarrow> string list" where
  "columns_of res = (case res of Inl e \<Rightarrow> [] | Inr df \<Rightarrow> map fst df)"

definition column_of :: "py_error + frame \<Rightarrow> string \<Rightarrow> series option" where
  "column_of res n = (case res of Inl e \<Rightarrow> None | Inr df \<Rightarrow> map_of df n)"

section \<open>The container entrypoint (docker-entrypoint.sh)\<close>

text \<open>
  The repository holds two revisions of \<^verbatim>\<open>docker-entrypoint.sh\<close>: one that installs a
  crontab and starts the cron service, and one that starts the Python scheduler. Both are
  straight-line bash scripts under \<^verbatim>\<open>set -e\<close>.

  The shell state is the exported environment, the positional parameters, the commands
  started so far (each with the environment it was started in) and a flag that says the
  script has stopped: under \<^verbatim>\<open>set -e\<close> a foreground command with a non-zero exit status
  ends the script. Whether an external command succeeds depends on the machine, so the
  scripts take that as the parameter \<open>ok\<close>.
\<close>

type_synonym env = "string \<rightharpoonup> string"

datatype command =
    Mkdir string                \<comment> \<open>\<^verbatim>\<open>mkdir -p PATH\<close>\<close>
  | Touch string                \<comment> \<open>\<^verbatim>\<open>touch PATH\<close>\<close>
  | Echo string                 \<comment> \<open>\<^verbatim>\<open>echo TEXT\<close>\<close>
  | Crontab string              \<comment> \<open>\<^verbatim>\<open>crontab FILE\<close>\<close>
  | Service string string       \<comment> \<open>\<^verbatim>\<open>service NAME ACTION\<close>\<close>
  | Python string string        \<comment> \<open>\<^verbatim>\<open>python -m MODULE ARGS\<close>, the arguments before word splitting\<close>
  | PythonBg string             \<comment> \<open>\<^verbatim>\<open>python -m MODULE &\<close>\<close>
  | TailF string                \<comment> \<open>\<^verbatim>\<open>tail -f FILE\<close>\<close>

record shell =
  env :: env
  args :: "string list"
  trace :: "(command \<times> env) list"
  halted :: bool

text \<open>A foreground command: it is started in the current environment, and the script
  stops when it fails.\<close>

definition exec_cmd :: "(command \<Rightarrow> bool) \<Rightarrow> command \<Rightarrow> shell \<Rightarrow> shell" where
  "exec_cmd ok c s =
     (if halted s then s
      else s\<lparr>trace := trace s @ [(c, env s)], halted := \<not> ok c\<rparr>)"

text \<open>A background command (\<^verbatim>\<open>&\<close>): it is started, and its exit status is never seen.\<close>

definition exec_bg :: "command \<Rightarrow> shell \<Rightarrow> shell" where
  "exec_bg c s =
     (if halted s then s else s\<lparr>trace := trace s @ [(c, env s)]\<rparr>)"

text \<open>\<^verbatim>\<open>export NAME="VALUE"\<close>.\<close>

definition export_var :: "string \<Rightarrow> string \<Rightarrow> shell \<Rightarrow> shell" where
  "export_var name v s = (if halted s then s else s\<lparr>env := (env s)(name \<mapsto> v)\<rparr>)"

text \<open>\<^verbatim>\<open>"$NAME"\<close>: the value of the variable, the empty string when it is unset (the
  scripts do not run under \<^verbatim>\<open>set -u\<close>).\<close>

definition expand :: "shell \<Rightarrow> string \<Rightarrow> string" where
  "expand s name = (case env s name of None \<Rightarrow> [] | Some v \<Rightarrow> v)"

text \<open>\<^verbatim>\<open>[ -z "$NAME" ]\<close>: true when the expansion has length zero.\<close>

definition test_z :: "shell \<Rightarrow> string \<Rightarrow> bool" where
  "test_z s name = (expand s name = [])"

text \<open>\<^verbatim>\<open>"$1"\<close>, empty when there is no first parameter.\<close>

definition arg1 :: "shell \<Rightarrow> string" where
  "arg1 s = (case args s of [] \<Rightarrow> [] | a # _ \<Rightarrow> a)"

text \<open>\<^verbatim>\<open>"${@:2}"\<close> assigned to a scalar: the parameters from the second on, joined by
  single spaces.\<close>

fun join_sp :: "string list \<Rightarrow> string" where
  "join_sp [] = []"
| "join_sp [a] = a"
| "join_sp (a # b # bs) = a @ '' '' @ join_sp (b # bs)"

definition args_from_2 :: "shell \<Rightarrow> string" where
  "args_from_2 s = join_sp (drop 1 (args s))"

definition default_url :: string where
  "default_url = ''postgresql://postgres:postgres@db:5432/camara_analytics''"

text \<open>The lines both revisions share: the default of \<^verbatim>\<open>DATABASE_URL\<close>.\<close>

definition set_default_url :: "shell \<Rightarrow> shell" where
  "set_default_url s =
     (if test_z s ''DATABASE_URL'' then export_var ''DATABASE_URL'' default_url s else s)"

text \<open>The branch on \<^verbatim>\<open>"$1"\<close> that both revisions share: \<^verbatim>\<open>init-db\<close> creates the tables
  and runs a full ETL, \<^verbatim>\<open>etl\<close> runs the ETL with the remaining parameters.\<close>

definition init_db :: "(command \<Rightarrow> bool) \<Rightarrow> shell \<Rightarrow> shell" where
  "init_db ok s =
     (let s1 = exec_cmd ok (Echo ''Initializing the database...'') s;
          s2 = exec_cmd ok (Python ''app.database.create_tables'' []) s1;
          s3 = exec_cmd ok (Echo ''Running initial ETL process...'') s2
      in exec_cmd ok (Python ''app.ingestion.cron_etl'' ''--mode full --entity all'') s3)"

definition run_etl :: "(command \<Rightarrow> bool) \<Rightarrow> shell \<Rightarrow> shell" where
  "run_etl ok s =
     (let ARGS = args_from_2 s;
          s1 = exec_cmd ok (Echo (''Running ETL process with arguments: '' @ ARGS)) s
      in exec_cmd ok (Python ''app.ingestion.cron_etl'' ARGS) s1)"

definition keep_running :: "(command \<Rightarrow> bool) \<Rightarrow> shell \<Rightarrow> shell" where
  "keep_running ok s =
     (let s1 = exec_cmd ok (Echo ''Startup completed, keeping container running...'') s
      in exec_cmd ok (TailF ''/app/logs/etl.log'') s1)"

text \<open>The revision that sets up cron.\<close>

definition entrypoint_cron :: "(command \<Rightarrow> bool) \<Rightarrow> shell \<Rightarrow> shell" where
  "entrypoint_cron ok s0 =
     (let s1 = exec_cmd ok (Mkdir ''/app/data/raw'') s0;
          s2 = exec_cmd ok (Mkdir ''/app/data/processed'') s1;
          s3 = exec_cmd ok (Mkdir ''/app/logs'') s2;
          s4 = set_default_url s3;
          s5 = exec_cmd ok (Echo ''Setting up cron jobs...'') s4;
          s6 = exec_cmd ok (Crontab ''/app/crontab'') s5;
          s7 = exec_cmd ok (Service ''cron'' ''start'') s6;
          s8 = (if arg1 s7 = ''init-db'' then init_db ok s7
                else if arg1 s7 = ''etl'' then run_etl ok s7
                else s7)
      in keep_running ok s8)"

text \<open>The revision that starts the Python scheduler.\<close>

definition entrypoint_scheduler :: "(command \<Rightarrow> bool) \<Rightarrow> shell \<Rightarrow> shell" where
  "entrypoint_scheduler ok s0 =
     (let s1 = exec_cmd ok (Mkdir ''/app/data/raw'') s0;
          s2 = exec_cmd ok (Mkdir ''/app/data/processed'') s1;
          s3 = exec_cmd ok (Mkdir ''/app/logs'') s2;
          s4 = exec_cmd ok (Touch ''/app/logs/etl.log'') s3;
          s5 = set_default_url s4;
          s6 = (if arg1 s5 = ''init-db'' then init_db ok s5
                else if arg1 s5 = ''etl'' then run_etl ok s5
                else
                  (let t1 = exec_cmd ok (Echo ''Starting Python scheduler...'') s5
                   in exec_bg (PythonBg ''app.scheduler'') t1))
      in keep_running ok s6)"

text \<open>The state a container starts the script in.\<close>

definition start :: "env \<Rightarrow> string list \<Rightarrow> shell" where
  "start e as = \<lparr>env = e, args = as, trace = [], halted = False\<rparr>"

text \<open>The commands that initialise the database, run the ETL or start a scheduler.\<close>

fun uses_database :: "command \<Rightarrow> bool" where
  "uses_database (Python _ _) = True"
| "uses_database (PythonBg _) = True"
| "uses_database (Crontab _) = True"
| "uses_database (Service _ _) = True"
| "uses_database _ = False"

text \<open>The value the script's commands see: the default when the variable is unset or
  empty, the given value otherwise.\<close>

definition effective_url :: "env \<Rightarrow> string" where
  "effective_url e =
     (case e ''DATABASE_URL'' of
        None \<Rightarrow> default_url
      | Some v \<Rightarrow> if v = [] then default_url else v)"

text \<open>A machine on which every command succeeds.\<close>

definition all_succeed :: "command \<Rightarrow> bool" where
  "all_succeed c = True"

text \<open>Two facts about a state of the script, for the proofs: before the default is set
  the environment is the one the container gave and no database command has run; after
  it, every database command has run in the environment with the effective URL.\<close>

definition seen_env :: "env \<Rightarrow> env" where
  "seen_env e0 = e0(''DATABASE_URL'' \<mapsto> effective_url e0)"

definition before_default :: "env \<Rightarrow> shell \<Rightarrow> bool" where
  "before_default e0 s \<longleftrightarrow>
     (halted s \<or> env s = e0) \<and> (\<forall>(c, e) \<in> set (trace s). \<not> uses_database c)"

definition after_default :: "env \<Rightarrow> shell \<Rightarrow> bool" where
  "after_default e0 s \<longleftrightarrow>
     (halted s \<or> env s = seen_env e0) \<and>
     (\<forall>(c, e) \<in> set (trace s). uses_database c \<longrightarrow> e = seen_env e0)"
section \<open>The Loader and the Watermark Store of the specification\<close>

text \<open>
  The ingestion package (\<^verbatim>\<open>app/ingestion\<close>: extraction, transformation tasks, load, the
  orchestrating flow) is not among the sources. What follows models the two components
  that the claims about re-running an extraction and about watermarks speak of, from
  sections 3, 4.2, 4.4 and 4.5 of the specification.
\<close>

subsection \<open>The Loader\<close>

text \<open>Modelled from the spec: the rows the Loader keeps for one entity (the load module is
  missing). A stored row has the surrogate id the table gives it (\<^verbatim>\<open>id SERIAL\<close> in the DDL),
  its natural key and the rest of the record; the table has the sequence of its ids.\<close>

record ('k, 'p) stored_row =
  row_id :: int
  natural_key :: 'k
  payload :: 'p

record ('k, 'p) entity_table =
  stored :: "('k, 'p) stored_row list"
  serial :: int

text \<open>Modelled from the spec: what "update-if-present-by-natural-key" writes (the Loader of
  section 4.4 is missing): the record replaces the payload of a stored row of its natural
  key and leaves the id of the row alone.\<close>

definition write_payload :: "'k \<times> 'p \<Rightarrow> ('k, 'p) stored_row \<Rightarrow> ('k, 'p) stored_row" where
  "write_payload rec r = (if natural_key r = fst rec then r\<lparr>payload := snd rec\<rparr> else r)"

text \<open>Modelled from the spec: the upsert of one normalized record (the Loader of section 4.4
  is missing), "insert-if-absent, update-if-present-by-natural-key". A record that violates
  a row-level constraint is skipped: \<open>accepts\<close> is that check, on the record and on the
  tables of the parents it refers to, which the load of this entity does not change.\<close>

definition upsert_row ::
  "('k \<times> 'p \<Rightarrow> bool) \<Rightarrow> 'k \<times> 'p \<Rightarrow> ('k, 'p) entity_table \<Rightarrow> ('k, 'p) entity_table" where
  "upsert_row accepts rec tb =
     (if \<not> accepts rec then tb
      else if fst rec \<in> natural_key ` set (stored tb)
      then tb\<lparr>stored := map (write_payload rec) (stored tb)\<rparr>
      else tb\<lparr>stored := stored tb @
                [\<lparr>row_id = serial tb + 1, natural_key = fst rec, payload = snd rec\<rparr>],
              serial := serial tb + 1\<rparr>)"

text \<open>Modelled from the spec: the load of one batch in one transaction (the Loader of
  section 4.4 is missing). A batch of the wrong shape is fatal and leaves the table as it
  was; otherwise the records are upserted in order.\<close>

definition load_batch ::
  "(('k \<times> 'p) list \<Rightarrow> bool) \<Rightarrow> ('k \<times> 'p \<Rightarrow> bool) \<Rightarrow> ('k \<times> 'p) list \<Rightarrow>
   ('k, 'p) entity_table \<Rightarrow> ('k, 'p) entity_table" where
  "load_batch shaped accepts batch tb =
     (if shaped batch then fold (upsert_row accepts) batch tb else tb)"

text \<open>Modelled from the spec: the entities of section 3 and a full extraction of section 4.2
  (the Extraction Orchestrator is missing). \<open>fetch\<close> stands for the API Client and the
  Transformer together: the normalized records of an entity for a date range, the same
  each time it is asked. The store keeps one table per entity.\<close>

datatype entity = Deputy | Expense | Speech | VotingSession | Vote

definition full_extraction ::
  "(entity \<Rightarrow> int \<times> int \<Rightarrow> ('k \<times> 'p) list) \<Rightarrow> (('k \<times> 'p) list \<Rightarrow> bool) \<Rightarrow>
   ('k \<times> 'p \<Rightarrow> bool) \<Rightarrow> entity \<Rightarrow> int \<times> int \<Rightarrow>
   (entity \<Rightarrow> ('k, 'p) entity_table) \<Rightarrow> (entity \<Rightarrow> ('k, 'p) entity_table)" where
  "full_extraction fetch shaped accepts e dates store =
     store(e := load_batch shaped accepts (fetch e dates) (store e))"

text \<open>Modelled from the spec: the payload a batch leaves in a stored row (the Loader of
  section 4.4 is missing): each record of the row's key, in order, replaces it.\<close>

definition overwrite :: "('k \<times> 'p) list \<Rightarrow> ('k, 'p) stored_row \<Rightarrow> ('k, 'p) stored_row" where
  "overwrite batch r = fold write_payload batch r"

subsection \<open>The Watermark Store\<close>


text \<open>Modelled from the spec: the watermark rows of section 3 (the Watermark Store is
  missing, and the DDL declares no table for it): one row per entity and optional
  sub-partition, holding a cursor, a date as a day number or an id. The rows are the state
  that one run leaves to the next.\<close>

record watermark =
  wm_entity :: entity
  wm_partition :: "string option"
  cursor :: int

type_synonym watermarks = "watermark list"

definition wm_key :: "watermark \<Rightarrow> entity \<times> string option" where
  "wm_key r = (wm_entity r, wm_partition r)"

text \<open>Modelled from the spec: \<^verbatim>\<open>get(entity)\<close> of section 4.5 (its code is missing): the
  last-known cursor, or \<open>None\<close>, the "never run" sentinel, when the entity has no row.\<close>

definition wm_get :: "watermarks \<Rightarrow> entity \<times> string option \<Rightarrow> int option" where
  "wm_get w k = map_option cursor (find (\<lambda>r. wm_key r = k) w)"

text \<open>Modelled from the spec: the write of a cursor into the rows of a key (the Watermark
  Store is missing); no row is added and none removed.\<close>

definition set_cursor :: "watermarks \<Rightarrow> entity \<times> string option \<Rightarrow> int \<Rightarrow> watermarks" where
  "set_cursor w k c = map (\<lambda>r. if wm_key r = k then r\<lparr>cursor := c\<rparr> else r) w"



text \<open>Modelled from the spec: the order of cursors of section 4.5 (the Watermark Store is
  missing), the "never run" sentinel below every cursor.\<close>

fun cursor_le :: "int option \<Rightarrow> int option \<Rightarrow> bool" where
  "cursor_le None c = True"
| "cursor_le (Some a) None = False"
| "cursor_le (Some a) (Some b) = (a \<le> b)"




text \<open>Modelled from the spec: a run of one entity in one of the two modes of section 4.2
  (the Orchestrator is missing). A full-mode run resets the watermark to the configured
  full-history start, then processes its ranges; an incremental run processes its ranges
  from the stored watermark on. A run that is cancelled or crashes is a run with the
  ranges it got to, the load in flight rolled back.\<close>

datatype mode = Full | Incremental





subsection \<open>Sample runs\<close>

text \<open>A fetch that returns three vote records, two of them with one natural key, and a
  store with no rows.\<close>

definition sample_fetch :: "entity \<Rightarrow> int \<times> int \<Rightarrow> ((string \<times> int) \<times> string) list" where
  "sample_fetch e dates =
     [((''2265603-43'', 204554), ''Sim''), ((''2265603-43'', 74646), ''Nao''),
      ((''2265603-43'', 204554), ''Abstencao'')]"

definition empty_store :: "entity \<Rightarrow> (string \<times> int, string) entity_table" where
  "empty_store e = \<lparr>stored = [], serial = 0\<rparr>"

definition any_batch :: "((string \<times> int) \<times> string) list \<Rightarrow> bool" where
  "any_batch b = True"

definition any_record :: "(string \<times> int) \<times> string \<Rightarrow> bool" where
  "any_record rec = True"





section \<open>The store: what the constraints keep true\<close>

lemmas ddl_defs = deputados_def despesas_def discursos_def votacoes_def votos_def
  col_def NOT_NULL_def PRIMARY_KEY_def REFERENCES_def

lemma distinct_cnames: "distinct (map cname (schema t))"
  by (cases t) (simp_all add: ddl_defs)

lemma unique_cols_id: "unique_cols t = [''id'']"
  by (cases t) (simp_all add: unique_cols_def indexes_def CREATE_INDEX_def ddl_defs)

lemma fks_of_simps:
  "fks_of Deputados = []"
  "fks_of Despesas = [(Deputados, ''deputado_id'', ''id'')]"
  "fks_of Discursos = [(Deputados, ''deputado_id'', ''id'')]"
  "fks_of Votacoes = []"
  "fks_of Votos = [(Votacoes, ''votacao_id'', ''id''), (Deputados, ''deputado_id'', ''id'')]"
  by (simp_all add: fks_of_def ddl_defs)

lemma all_tables_complete: "t \<in> set all_tables"
  by (cases t) (simp_all add: all_tables_def)

lemma referencing_iff:
  "(t2, n2, n) \<in> set (referencing t) \<longleftrightarrow> (t, n2, n) \<in> set (fks_of t2)"
  using all_tables_complete[of t2] by (auto simp: referencing_def)

lemma find_None: "find P xs = None \<longleftrightarrow> (\<forall>x \<in> set xs. \<not> P x)"
  by (auto simp: find_None_iff)

lemma valid_empty: "valid empty_db"
  by (simp add: valid_def typed_def keyed_def linked_def empty_db_def column_values_def)

lemma get_Cons: "get ((n', v) # r) n = (if n = n' then v else get r n)"
  by (simp add: get_def)

lemma fill_row_names: "fill_row cs given sq = (r, sq') \<Longrightarrow> map fst r = map cname cs"
  by (induction cs arbitrary: r sq sq') (auto split: option.splits prod.splits if_splits)

lemma fill_row_mono: "fill_row cs given sq = (r, sq') \<Longrightarrow> sq \<le> sq'"
proof (induction cs arbitrary: r sq sq')
  case Nil
  then show ?case by simp
next
  case (Cons c cs)
  then show ?case
    by (fastforce split: option.splits prod.splits if_splits)
qed

lemma fill_row_get:
  "fill_row cs given sq = (r, sq') \<Longrightarrow> distinct (map cname cs) \<Longrightarrow> c \<in> set cs \<Longrightarrow>
   (case map_of given (cname c) of
      Some v \<Rightarrow> get r (cname c) = v
    | None \<Rightarrow>
        if ctype c = SERIAL then (\<exists>k. get r (cname c) = IntV k \<and> sq < k \<and> k \<le> sq')
        else get r (cname c) = Null)"
proof (induction cs arbitrary: r sq sq')
  case Nil
  then show ?case by simp
next
  case (Cons c0 cs)
  obtain r0 where tl: "fill_row cs given (if map_of given (cname c0) = None \<and> ctype c0 = SERIAL then sq + 1 else sq) = (r0, sq')"
    and r: "r = (cname c0, case map_of given (cname c0) of Some v \<Rightarrow> v
                  | None \<Rightarrow> if ctype c0 = SERIAL then IntV (sq + 1) else Null) # r0"
    using Cons.prems(1) by (auto split: option.splits prod.splits if_splits)
  show ?case
  proof (cases "c = c0")
    case True
    from fill_row_mono[OF tl] show ?thesis
      by (auto simp: r True get_Cons split: option.splits)
  next
    case False
    with Cons.prems(3) have c: "c \<in> set cs" by simp
    from Cons.prems(2) have "cname c0 \<notin> cname ` set cs" by simp
    with c have ne: "cname c \<noteq> cname c0" by (metis imageI)
    from Cons.IH[OF tl _ c] Cons.prems(2)
    show ?thesis
      by (auto simp: r get_Cons ne split: option.splits if_splits)
  qed
qed

lemma check_names_NoneD:
  assumes "check_names t given = None"
  shows "set (map fst given) \<subseteq> set (map cname (schema t))"
    and "distinct (map fst given)"
    and "\<And>c. c \<in> set (schema t) \<Longrightarrow> type_ok c (get given (cname c))"
  using assms
  by (auto simp: check_names_def find_None split: option.splits if_splits)

lemma get_map_of: "get given n = (case map_of given n of Some v \<Rightarrow> v | None \<Rightarrow> Null)"
  by (simp add: get_def)

lemma insert_row_ok:
  assumes names: "check_names t given = None"
    and fill: "fill_row (schema t) given sq = (r, sq')"
    and nn: "check_not_null t r = None"
    and lo: "0 \<le> sq" and hi: "sq' \<le> 2147483647"
  shows "row_ok t r"
proof -
  have "if get r (cname c) = Null then \<not> required c else conforms (ctype c) (get r (cname c))"
    if c: "c \<in> set (schema t)" for c
  proof (cases "get r (cname c) = Null")
    case True
    with nn c show ?thesis by (auto simp: check_not_null_def find_None split: option.splits)
  next
    case False
    from fill_row_get[OF fill distinct_cnames c] check_names_NoneD(3)[OF names c] False lo hi
    show ?thesis
      by (cases "ctype c") (auto simp: type_ok_def get_map_of split: option.splits if_splits)
  qed
  with fill_row_names[OF fill] show ?thesis by (simp add: row_ok_def)
qed


lemma insert_into_Done:
  assumes "insert_into t given db = Done db'"
  shows "\<exists>r sq.
    check_names t given = None \<and>
    fill_row (schema t) given (last_value db t) = (r, sq) \<and>
    sq \<le> 2147483647 \<and>
    check_not_null t r = None \<and>
    (\<forall>n \<in> set (unique_cols t). get r n = Null \<or> get r n \<notin> set (column_values db t n)) \<and>
    check_references db t r = None \<and>
    db' = set_rows t (rows db t @ [r]) (db\<lparr>last_value := (last_value db)(t := sq)\<rparr>)"
  using assms
  by (auto simp: insert_into_def Let_def find_None split: option.splits prod.splits if_splits)

lemma insert_into_Failed:
  assumes "insert_into t given db = Failed e db'"
  shows "rows db' = rows db \<and> (\<forall>t'. last_value db t' \<le> last_value db' t')"
  using assms
  by (auto simp: insert_into_def Let_def split: option.splits prod.splits if_splits
      dest: fill_row_mono)

lemma rows_set_rows: "rows (set_rows t rs db) t' = (if t' = t then rs else rows db t')"
  by (simp add: set_rows_def)

lemma last_value_set_rows: "last_value (set_rows t rs db) = last_value db"
  by (simp add: set_rows_def)

lemma column_values_set_rows:
  "column_values (set_rows t rs db) t' n = (if t' = t then map (\<lambda>r. get r n) rs else column_values db t' n)"
  by (simp add: column_values_def set_rows_def)

lemma column_values_last_value [simp]:
  "column_values (db\<lparr>last_value := f\<rparr>) t n = column_values db t n"
  by (simp add: column_values_def)

lemma typed_insert:
  assumes "typed db" and "insert_into t given db = Done db'"
  shows "typed db'"
proof -
  from assms(2) obtain r sq where
    names: "check_names t given = None" and
    fill: "fill_row (schema t) given (last_value db t) = (r, sq)" and
    hi: "sq \<le> 2147483647" and
    nn: "check_not_null t r = None" and
    db': "db' = set_rows t (rows db t @ [r]) (db\<lparr>last_value := (last_value db)(t := sq)\<rparr>)"
    using insert_into_Done by blast
  from assms(1) have lo: "0 \<le> last_value db t" by (simp add: typed_def)
  have "row_ok t r" using names fill nn lo hi by (rule insert_row_ok)
  moreover from fill_row_mono[OF fill] lo have "0 \<le> sq" by simp
  ultimately show ?thesis
    using assms(1) by (auto simp: typed_def db' rows_set_rows last_value_set_rows)
qed

lemma keyed_insert:
  assumes "keyed db" and "insert_into t given db = Done db'"
  shows "keyed db'"
proof -
  from assms(2) obtain r sq where
    uq: "\<forall>n \<in> set (unique_cols t). get r n = Null \<or> get r n \<notin> set (column_values db t n)" and
    db': "db' = set_rows t (rows db t @ [r]) (db\<lparr>last_value := (last_value db)(t := sq)\<rparr>)"
    using insert_into_Done by blast
  show ?thesis
    unfolding keyed_def
  proof (intro allI ballI)
    fix t' n assume n: "n \<in> set (unique_cols t')"
    from assms(1) n have d: "distinct (filter (\<lambda>v. v \<noteq> Null) (column_values db t' n))"
      by (simp add: keyed_def)
    show "distinct (filter (\<lambda>v. v \<noteq> Null) (column_values db' t' n))"
    proof (cases "t' = t")
      case True
      with uq n d show ?thesis
        by (auto simp: db' column_values_def rows_set_rows)
    next
      case False
      with d show ?thesis by (simp add: db' column_values_set_rows)
    qed
  qed
qed

lemma check_references_NoneD:
  "check_references db t r = None \<Longrightarrow> (t', n2, n) \<in> set (fks_of t) \<Longrightarrow>
   get r n2 = Null \<or> get r n2 \<in> set (column_values db t' n)"
  by (auto simp: check_references_def find_None split: option.splits)

lemma linkedD:
  "linked db \<Longrightarrow> (t', n2, n) \<in> set (fks_of t) \<Longrightarrow> r \<in> set (rows db t) \<Longrightarrow>
   get r n2 = Null \<or> get r n2 \<in> set (column_values db t' n)"
  unfolding linked_def by blast

lemma linkedI:
  assumes "\<And>t t' n2 n r. (t', n2, n) \<in> set (fks_of t) \<Longrightarrow> r \<in> set (rows db t) \<Longrightarrow>
      get r n2 \<noteq> Null \<Longrightarrow> get r n2 \<in> set (column_values db t' n)"
  shows "linked db"
  unfolding linked_def using assms by blast

lemma linked_insert:
  assumes "linked db" and "insert_into t given db = Done db'"
  shows "linked db'"
proof -
  from assms(2) obtain r sq where
    fk: "check_references db t r = None" and
    db': "db' = set_rows t (rows db t @ [r]) (db\<lparr>last_value := (last_value db)(t := sq)\<rparr>)"
    using insert_into_Done by blast
  have grow: "set (column_values db t' n) \<subseteq> set (column_values db' t' n)" for t' n
    by (auto simp: db' column_values_def rows_set_rows)
  show ?thesis
  proof (rule linkedI)
    fix t1 t' n2 n r1
    assume k: "(t', n2, n) \<in> set (fks_of t1)" and r1: "r1 \<in> set (rows db' t1)"
      and v: "get r1 n2 \<noteq> Null"
    have "get r1 n2 = Null \<or> get r1 n2 \<in> set (column_values db t' n)"
    proof (cases "r1 \<in> set (rows db t1)")
      case True
      with assms(1) k show ?thesis by (rule linkedD)
    next
      case False
      with r1 have "t1 = t" "r1 = r" by (auto simp: db' rows_set_rows split: if_splits)
      with fk k show ?thesis by (auto dest: check_references_NoneD)
    qed
    with v grow[of t' n] show "get r1 n2 \<in> set (column_values db' t' n)" by auto
  qed
qed

lemma delete_from_Done:
  assumes "delete_from t p db = Done db'"
  shows "db' = set_rows t (filter (\<lambda>r. \<not> p r) (rows db t)) db \<and>
    find (dangling db' t (filter p (rows db t))) (referencing t) = None"
  using assms
  by (auto simp: delete_from_def Let_def split: option.splits)

lemma not_dangling:
  assumes "find (dangling db t gone) (referencing t) = None"
    and "(t, n2, n) \<in> set (fks_of t2)"
    and "v \<in> set (column_values db t2 n2)" and "v \<noteq> Null"
    and "v \<in> set (map (\<lambda>r. get r n) gone)"
  shows "v \<in> set (column_values db t n)"
proof -
  from assms(2) have "(t2, n2, n) \<in> set (referencing t)" by (simp add: referencing_iff)
  with assms(1) have "\<not> dangling db t gone (t2, n2, n)"
    unfolding find_None by blast
  with assms(3-5) show ?thesis by auto
qed

lemma delete_from_Failed:
  "delete_from t p db = Failed e db' \<Longrightarrow> db' = db"
  by (auto simp: delete_from_def Let_def split: option.splits)

lemma distinct_filter_map_filter:
  "distinct (filter P (map f xs)) \<Longrightarrow> distinct (filter P (map f (filter Q xs)))"
  by (induction xs) auto

lemma typed_delete:
  assumes "typed db" and "delete_from t p db = Done db'"
  shows "typed db'"
  using assms(1) delete_from_Done[OF assms(2)]
  by (auto simp: typed_def rows_set_rows last_value_set_rows)

lemma keyed_delete:
  assumes "keyed db" and "delete_from t p db = Done db'"
  shows "keyed db'"
  using assms(1) delete_from_Done[OF assms(2)]
  by (auto simp: keyed_def column_values_set_rows column_values_def rows_set_rows
      intro: distinct_filter_map_filter)

lemma linked_delete:
  assumes "linked db" and "delete_from t p db = Done db'"
  shows "linked db'"
proof (rule linkedI)
  fix t1 t' n2 n r1
  assume k: "(t', n2, n) \<in> set (fks_of t1)" and r1: "r1 \<in> set (rows db' t1)"
    and v: "get r1 n2 \<noteq> Null"
  from delete_from_Done[OF assms(2)] have
    db': "db' = set_rows t (filter (\<lambda>r. \<not> p r) (rows db t)) db" and
    chk: "find (dangling db' t (filter p (rows db t))) (referencing t) = None"
    by blast+
  from r1 have r1o: "r1 \<in> set (rows db t1)"
    by (auto simp: db' rows_set_rows split: if_splits)
  from linkedD[OF assms(1) k r1o] v have old: "get r1 n2 \<in> set (column_values db t' n)"
    by simp
  show "get r1 n2 \<in> set (column_values db' t' n)"
  proof (cases "t' = t")
    case False
    with old show ?thesis by (simp add: db' column_values_set_rows)
  next
    case True
    from r1 have in2: "get r1 n2 \<in> set (column_values db' t1 n2)"
      by (auto simp: column_values_def)
    from old True have
      "get r1 n2 \<in> set (map (\<lambda>r. get r n) (filter p (rows db t))) \<or>
       get r1 n2 \<in> set (column_values db' t n)"
      by (auto simp: db' column_values_def rows_set_rows)
    with not_dangling[OF chk k[unfolded True] in2 v] True show ?thesis by blast
  qed
qed

lemma valid_delete:
  "valid db \<Longrightarrow> delete_from t p db = Done db' \<Longrightarrow> valid db'"
  by (auto simp: valid_def intro: typed_delete keyed_delete linked_delete)

lemma valid_insert:
  "valid db \<Longrightarrow> insert_into t given db = Done db' \<Longrightarrow> valid db'"
  by (auto simp: valid_def intro: typed_insert keyed_insert linked_insert)

lemma valid_last_value:
  assumes "valid db" and "rows db' = rows db" and "\<And>t. last_value db t \<le> last_value db' t"
  shows "valid db'"
proof -
  have c: "column_values db' = column_values db"
    by (simp add: column_values_def assms(2) fun_eq_iff)
  have "0 \<le> last_value db' t" for t
    using assms(1) assms(3)[of t] unfolding valid_def typed_def by (meson order_trans)
  with assms(1) show ?thesis
    unfolding valid_def typed_def keyed_def linked_def c assms(2) by simp
qed

lemma valid_insert_Failed:
  assumes "valid db" and "insert_into t given db = Failed e db'"
  shows "valid db'"
  using assms(1) insert_into_Failed[OF assms(2)] by (auto intro: valid_last_value)

lemma update_set_Done:
  assumes "update_set t sets p db = Done db'"
  shows "check_names t sets = None"
    and "db' = set_rows t (map (\<lambda>r. if p r then assign sets r else r) (rows db t)) db"
    and "\<And>r. r \<in> set (rows db t) \<Longrightarrow> p r \<Longrightarrow> check_not_null t (assign sets r) = None"
    and "\<And>r. r \<in> set (rows db t) \<Longrightarrow> p r \<Longrightarrow> check_references db' t (assign sets r) = None"
    and "\<And>n. n \<in> set (unique_cols t) \<Longrightarrow>
           distinct (filter (\<lambda>v. v \<noteq> Null) (column_values db' t n))"
    and "find (dangling db' t (filter p (rows db t))) (referencing t) = None"
  using assms
  by (auto simp: update_set_def Let_def find_None split: option.splits)

lemma update_set_Failed:
  "update_set t sets p db = Failed e db' \<Longrightarrow> db' = db"
  by (auto simp: update_set_def Let_def split: option.splits)

lemma names_assign: "map fst (assign sets r) = map fst r"
  by (simp add: assign_def case_prod_unfold)

lemma get_assign:
  "get (assign sets r) n =
     (case map_of r n of
        None \<Rightarrow> Null
      | Some v \<Rightarrow> (case map_of sets n of Some v' \<Rightarrow> v' | None \<Rightarrow> v))"
  unfolding get_def assign_def
  by (induction r) (auto split: option.splits)

lemma row_ok_assign:
  assumes ok: "row_ok t r" and names: "check_names t sets = None"
    and nn: "check_not_null t (assign sets r) = None"
  shows "row_ok t (assign sets r)"
proof -
  have "if get (assign sets r) (cname c) = Null then \<not> required c
        else conforms (ctype c) (get (assign sets r) (cname c))"
    if c: "c \<in> set (schema t)" for c
  proof (cases "get (assign sets r) (cname c) = Null")
    case True
    with nn c show ?thesis by (auto simp: check_not_null_def find_None split: option.splits)
  next
    case False
    from ok c have old: "get r (cname c) = Null \<or> conforms (ctype c) (get r (cname c))"
      by (auto simp: row_ok_def split: if_splits)
    from check_names_NoneD(3)[OF names c] old False[unfolded get_assign]
    show ?thesis
      unfolding get_assign
      by (auto simp: type_ok_def get_map_of split: option.splits)
  qed
  with ok show ?thesis by (simp add: row_ok_def names_assign)
qed

lemma typed_update:
  assumes "typed db" and "update_set t sets p db = Done db'"
  shows "typed db'"
  using assms(1) update_set_Done(1,3)[OF assms(2)]
  by (auto simp: typed_def update_set_Done(2)[OF assms(2)] rows_set_rows last_value_set_rows
      intro: row_ok_assign)

lemma keyed_update:
  assumes "keyed db" and "update_set t sets p db = Done db'"
  shows "keyed db'"
  unfolding keyed_def
proof (intro allI ballI)
  fix t' n assume n: "n \<in> set (unique_cols t')"
  show "distinct (filter (\<lambda>v. v \<noteq> Null) (column_values db' t' n))"
  proof (cases "t' = t")
    case True
    with n update_set_Done(5)[OF assms(2)] show ?thesis by blast
  next
    case False
    from False have "column_values db' t' n = column_values db t' n"
      by (simp add: update_set_Done(2)[OF assms(2)] column_values_set_rows)
    with assms(1) n show ?thesis by (simp add: keyed_def)
  qed
qed

lemma linked_update:
  assumes "linked db" and "update_set t sets p db = Done db'"
  shows "linked db'"
proof (rule linkedI)
  fix t1 t' n2 n r1
  assume k: "(t', n2, n) \<in> set (fks_of t1)" and r1: "r1 \<in> set (rows db' t1)"
    and v: "get r1 n2 \<noteq> Null"
  note db' = update_set_Done(2)[OF assms(2)]
  note new = update_set_Done(4)[OF assms(2)]
  note chk = update_set_Done(6)[OF assms(2)]
  show "get r1 n2 \<in> set (column_values db' t' n)"
  proof (cases "t1 = t \<and> (\<exists>r \<in> set (rows db t). p r \<and> r1 = assign sets r)")
    case True
    then obtain r where "r \<in> set (rows db t)" "p r" "r1 = assign sets r" "t1 = t" by blast
    with new[of r] k v show ?thesis by (auto dest: check_references_NoneD)
  next
    case False
    with r1 have r1o: "r1 \<in> set (rows db t1)"
      by (auto simp: db' rows_set_rows split: if_splits)
    from linkedD[OF assms(1) k r1o] v have old: "get r1 n2 \<in> set (column_values db t' n)"
      by simp
    show ?thesis
    proof (cases "t' = t")
      case False
      with old show ?thesis by (simp add: db' column_values_set_rows)
    next
      case True
      from r1 have in2: "get r1 n2 \<in> set (column_values db' t1 n2)"
        by (auto simp: column_values_def)
      from old True obtain r where r: "r \<in> set (rows db t)" "get r n = get r1 n2"
        by (auto simp: column_values_def)
      have "get r1 n2 \<in> set (map (\<lambda>r. get r n) (filter p (rows db t))) \<or>
         get r1 n2 \<in> set (column_values db' t n)"
      proof (cases "p r")
        case True
        with r show ?thesis by force
      next
        case False
        with r(1) have "r \<in> set (rows db' t)"
          by (force simp: db' rows_set_rows)
        with r(2) show ?thesis by (force simp: column_values_def)
      qed
      with not_dangling[OF chk k[unfolded True] in2 v] True show ?thesis by blast
    qed
  qed
qed

lemma valid_update:
  "valid db \<Longrightarrow> update_set t sets p db = Done db' \<Longrightarrow> valid db'"
  by (auto simp: valid_def intro: typed_update keyed_update linked_update)

lemma valid_exec: "valid db \<Longrightarrow> valid (db_of (exec s db))"
proof (cases s)
  case (INSERT t given)
  assume "valid db"
  then show ?thesis
    by (cases "insert_into t given db") (auto simp: INSERT intro: valid_insert valid_insert_Failed)
next
  case (DELETE t p)
  assume "valid db"
  then show ?thesis
    by (cases "delete_from t p db") (auto simp: DELETE intro: valid_delete dest: delete_from_Failed)
next
  case (UPDATE t sets p)
  assume "valid db"
  then show ?thesis
    by (cases "update_set t sets p db") (auto simp: UPDATE intro: valid_update dest: update_set_Failed)
qed

lemma valid_run: "valid db \<Longrightarrow> valid (run ss db)"
  by (induction ss arbitrary: db) (simp_all add: valid_exec)

lemma valid_session: "valid (run ss empty_db)"
  by (simp add: valid_run valid_empty)

lemma typed_required:
  assumes "typed db" and "r \<in> set (rows db t)" and "c \<in> set (schema t)" and "required c"
  shows "conforms (ctype c) (get r (cname c))"
  using assms by (auto simp: typed_def row_ok_def split: if_splits)

lemma conforms_NUMERIC: "conforms NUMERIC v \<Longrightarrow> \<exists>x. v = NumV x"
  by (cases v) simp_all

lemma conforms_BOOLEAN: "conforms BOOLEAN v \<Longrightarrow> \<exists>b. v = BoolV b"
  by (cases v) simp_all

lemma conforms_JSONB: "conforms JSONB v \<Longrightarrow> \<exists>j. v = JsonV j"
  by (cases v) simp_all

lemma conforms_VARCHAR: "conforms VARCHAR v \<Longrightarrow> \<exists>s. v = StrV s"
  by (cases v) simp_all

lemma conforms_not_Null: "conforms ty v \<Longrightarrow> v \<noteq> Null"
  by (cases ty) auto

text \<open>The row a successful \<^verbatim>\<open>INSERT\<close> stores holds the given value in every column that is
  not a \<^verbatim>\<open>SERIAL\<close> left out.\<close>

lemma insert_into_stores:
  assumes "insert_into t given db = Done db'"
  shows "\<exists>r. rows db' = (rows db)(t := rows db t @ [r]) \<and>
           check_not_null t r = None \<and> check_references db t r = None \<and>
           (\<forall>c \<in> set (schema t). ctype c \<noteq> SERIAL \<or> map_of given (cname c) \<noteq> None \<longrightarrow>
              get r (cname c) = get given (cname c))"
proof -
  from insert_into_Done[OF assms] obtain r sq where
    fill: "fill_row (schema t) given (last_value db t) = (r, sq)" and
    nn: "check_not_null t r = None" and
    fk: "check_references db t r = None" and
    db': "db' = set_rows t (rows db t @ [r]) (db\<lparr>last_value := (last_value db)(t := sq)\<rparr>)"
    by blast
  have "get r (cname c) = get given (cname c)"
    if "c \<in> set (schema t)" "ctype c \<noteq> SERIAL \<or> map_of given (cname c) \<noteq> None" for c
    using fill_row_get[OF fill distinct_cnames that(1)] that(2)
    by (auto simp: get_map_of split: option.splits if_splits)
  with nn fk show ?thesis
    by (intro exI[of _ r]) (simp add: db' set_rows_def)
qed

lemma check_not_null_NoneD:
  "check_not_null t r = None \<Longrightarrow> c \<in> set (schema t) \<Longrightarrow> required c \<Longrightarrow> get r (cname c) \<noteq> Null"
  by (auto simp: check_not_null_def find_None split: option.splits)

text \<open>A successful \<^verbatim>\<open>INSERT\<close> gave a value to every required column that has no default, and
  the parent of every foreign key it gave is in the store.\<close>

lemma insert_into_required:
  assumes "insert_into t given db = Done db'"
    and "c \<in> set (schema t)" and "required c" and "ctype c \<noteq> SERIAL"
  shows "get given (cname c) \<noteq> Null"
proof -
  from insert_into_stores[OF assms(1)] obtain r where
    nn: "check_not_null t r = None" and
    g: "\<forall>c \<in> set (schema t). ctype c \<noteq> SERIAL \<or> map_of given (cname c) \<noteq> None \<longrightarrow>
              get r (cname c) = get given (cname c)"
    by blast
  from g assms(2,4) have "get r (cname c) = get given (cname c)" by blast
  with check_not_null_NoneD[OF nn assms(2,3)] show ?thesis by simp
qed

lemma insert_into_parent:
  assumes "insert_into t given db = Done db'"
    and "c \<in> set (schema t)" and "required c" and "ctype c \<noteq> SERIAL"
    and "(t', cname c, n) \<in> set (fks_of t)"
  shows "get given (cname c) \<in> set (column_values db t' n)"
proof -
  from insert_into_stores[OF assms(1)] obtain r where
    nn: "check_not_null t r = None" and
    fk: "check_references db t r = None" and
    g: "\<forall>c \<in> set (schema t). ctype c \<noteq> SERIAL \<or> map_of given (cname c) \<noteq> None \<longrightarrow>
              get r (cname c) = get given (cname c)"
    by blast
  from g assms(2,4) have e: "get r (cname c) = get given (cname c)" by blast
  from check_not_null_NoneD[OF nn assms(2,3)] check_references_NoneD[OF fk assms(5)] e
  show ?thesis by simp
qed

lemma schema_members:
  "REFERENCES Deputados ''id'' (NOT_NULL (col ''deputado_id'' INTEGER)) \<in> set (schema Despesas)"
  "REFERENCES Deputados ''id'' (NOT_NULL (col ''deputado_id'' INTEGER)) \<in> set (schema Discursos)"
  "REFERENCES Deputados ''id'' (NOT_NULL (col ''deputado_id'' INTEGER)) \<in> set (schema Votos)"
  "REFERENCES Votacoes ''id'' (NOT_NULL (col ''votacao_id'' VARCHAR)) \<in> set (schema Votos)"
  "NOT_NULL (col ''valor_documento'' NUMERIC) \<in> set (schema Despesas)"
  "NOT_NULL (col ''valor_liquido'' NUMERIC) \<in> set (schema Despesas)"
  "NOT_NULL (col ''valor_glosa'' NUMERIC) \<in> set (schema Despesas)"
  "PRIMARY_KEY (col ''id'' VARCHAR) \<in> set (schema Votacoes)"
  "NOT_NULL (col ''tipo_votacao'' JSONB) \<in> set (schema Votacoes)"
  "NOT_NULL (col ''aprovacao'' BOOLEAN) \<in> set (schema Votacoes)"
  by (simp_all add: despesas_def discursos_def votos_def votacoes_def)

lemma column_facts [simp]:
  "cname (col n ty) = n" "ctype (col n ty) = ty" "\<not> required (col n INTEGER)"
  "cname (NOT_NULL c) = cname c" "ctype (NOT_NULL c) = ctype c" "required (NOT_NULL c)"
  "cname (PRIMARY_KEY c) = cname c" "ctype (PRIMARY_KEY c) = ctype c" "required (PRIMARY_KEY c)"
  "cname (REFERENCES t n c) = cname c" "ctype (REFERENCES t n c) = ctype c"
  "required (REFERENCES t n c) = required c"
  by (simp_all add: col_def NOT_NULL_def PRIMARY_KEY_def REFERENCES_def required_def)

lemma primary_key_id:
  "c \<in> set (schema t) \<Longrightarrow> cname c = ''id'' \<Longrightarrow> required c"
  by (cases t) (auto simp: ddl_defs required_def)

lemma id_column: "\<exists>c \<in> set (schema t). cname c = ''id''"
  by (cases t) (simp_all add: ddl_defs)

lemma session_ids:
  "distinct (column_values (run ss empty_db) t ''id'') \<and>
   Null \<notin> set (column_values (run ss empty_db) t ''id'')"
proof -
  let ?db = "run ss empty_db"
  have v: "valid ?db" by (rule valid_session)
  obtain c where c: "c \<in> set (schema t)" "cname c = ''id''" using id_column by blast
  then have rq: "required c" by (rule primary_key_id)
  have nn: "Null \<notin> set (column_values ?db t ''id'')"
  proof
    assume "Null \<in> set (column_values ?db t ''id'')"
    then obtain r where r: "r \<in> set (rows ?db t)" "get r ''id'' = Null"
      by (auto simp: column_values_def)
    from v have "typed ?db" by (simp add: valid_def)
    from typed_required[OF this r(1) c(1) rq] r(2) c(2) show False
      by (simp add: conforms_not_Null)
  qed
  then have "filter (\<lambda>v. v \<noteq> Null) (column_values ?db t ''id'') = column_values ?db t ''id''"
    by (simp add: filter_id_conv) metis
  moreover from v have "distinct (filter (\<lambda>v. v \<noteq> Null) (column_values ?db t ''id''))"
    by (simp add: valid_def keyed_def unique_cols_id)
  ultimately show ?thesis using nn by simp
qed

lemma session_parent:
  assumes "r \<in> set (rows (run ss empty_db) t)"
    and "c \<in> set (schema t)" and "required c" and "(t', cname c, n) \<in> set (fks_of t)"
  shows "get r (cname c) \<noteq> Null \<and> get r (cname c) \<in> set (column_values (run ss empty_db) t' n)"
proof -
  have v: "valid (run ss empty_db)" by (rule valid_session)
  then have "typed (run ss empty_db)" and l: "linked (run ss empty_db)"
    by (simp_all add: valid_def)
  from typed_required[OF this(1) assms(1-3)] have "get r (cname c) \<noteq> Null"
    by (rule conforms_not_Null)
  with linkedD[OF l assms(4,1)] show ?thesis by simp
qed

lemma insert_needs_parent:
  assumes "c \<in> set (schema t)" and "required c" and "ctype c \<noteq> SERIAL"
    and "(t', cname c, n) \<in> set (fks_of t)"
    and "get given (cname c) \<notin> set (column_values db t' n)"
  shows "\<not> is_done (insert_into t given db)"
proof
  assume "is_done (insert_into t given db)"
  then obtain db' where "insert_into t given db = Done db'"
    by (cases "insert_into t given db") simp_all
  from insert_into_parent[OF this assms(1-4)] assms(5) show False by simp
qed

lemma session_required:
  assumes "r \<in> set (rows (run ss empty_db) t)" and "c \<in> set (schema t)" and "required c"
  shows "conforms (ctype c) (get r (cname c))"
proof -
  have "valid (run ss empty_db)" by (rule valid_session)
  then have "typed (run ss empty_db)" by (simp add: valid_def)
  from typed_required[OF this assms] show ?thesis .
qed

lemma insert_needs_value:
  assumes "c \<in> set (schema t)" and "required c" and "ctype c \<noteq> SERIAL"
    and "get given (cname c) = Null"
  shows "\<not> is_done (insert_into t given db)"
proof
  assume "is_done (insert_into t given db)"
  then obtain db' where "insert_into t given db = Done db'"
    by (cases "insert_into t given db") simp_all
  from insert_into_required[OF this assms(1-3)] assms(4) show False by simp
qed

lemma insert_into_keeps:
  assumes "insert_into t given db = Done db'" and "c \<in> set (schema t)" and "ctype c \<noteq> SERIAL"
  shows "\<exists>r. rows db' t = rows db t @ [r] \<and> get r (cname c) = get given (cname c)"
  using insert_into_stores[OF assms(1)] assms(2,3) by fastforce

lemma is_done_eq: "is_done out \<Longrightarrow> out = Done (db_of out)"
  by (cases out) simp_all

lemma fill_row_no_serial:
  "\<forall>c \<in> set cs. ctype c \<noteq> SERIAL \<Longrightarrow> fill_row cs given sq = (r, sq') \<Longrightarrow> sq' = sq"
  by (induction cs arbitrary: r sq sq') (auto split: option.splits prod.splits)

lemma votacoes_no_serial: "\<forall>c \<in> set votacoes. ctype c \<noteq> SERIAL"
  by (simp add: votacoes_def)

lemma last_value_insert_into:
  "last_value (db_of (insert_into t given db)) t' =
     (if t' = t then last_value (db_of (insert_into t given db)) t else last_value db t')"
  by (auto simp: insert_into_def Let_def set_rows_def split: option.splits prod.splits)

lemma last_value_insert_votacoes:
  "last_value (db_of (insert_into Votacoes given db)) Votacoes = last_value db Votacoes"
  using fill_row_no_serial[OF votacoes_no_serial]
  by (auto simp: insert_into_def Let_def set_rows_def split: option.splits prod.splits)

lemma last_value_exec_votacoes:
  "last_value (db_of (exec s db)) Votacoes = last_value db Votacoes"
proof (cases s)
  case (INSERT t given)
  show ?thesis
  proof (cases "t = Votacoes")
    case True
    then show ?thesis by (simp add: INSERT last_value_insert_votacoes)
  next
    case False
    then show ?thesis using last_value_insert_into[of t given db Votacoes] by (simp add: INSERT)
  qed
next
  case (DELETE t p)
  then show ?thesis
    by (auto simp: delete_from_def Let_def set_rows_def split: option.splits)
next
  case (UPDATE t sets p)
  then show ?thesis
    by (auto simp: update_set_def Let_def set_rows_def split: option.splits)
qed

lemma last_value_run_votacoes:
  "last_value (run ss db) Votacoes = last_value db Votacoes"
  by (induction ss arbitrary: db) (simp_all add: last_value_exec_votacoes)


section \<open>The notebook: frames and cells\<close>


lemma getitem_Inr: "getitem df n = Inr s \<longleftrightarrow> map_of df n = Some s"
  by (simp add: getitem_def split: option.splits)

lemma select_ok:
  "\<forall>n \<in> set ns. map_of df n \<noteq> None \<Longrightarrow>
   select df ns = Inr (map (\<lambda>n. (n, the (map_of df n))) ns)"
  by (induction ns) (auto simp: getitem_def)

lemma select_missing:
  "n \<in> set ns \<Longrightarrow> map_of df n = None \<Longrightarrow> \<exists>e. select df ns = Inl e"
  by (induction ns) (auto simp: getitem_def split: sum.splits option.splits)

lemma select_Inr:
  "select df ns = Inr out \<longleftrightarrow>
     (\<forall>n \<in> set ns. map_of df n \<noteq> None) \<and> out = map (\<lambda>n. (n, the (map_of df n))) ns"
proof (cases "\<forall>n \<in> set ns. map_of df n \<noteq> None")
  case True
  then show ?thesis by (auto simp: select_ok)
next
  case False
  then obtain n where "n \<in> set ns" "map_of df n = None" by blast
  from select_missing[OF this] False show ?thesis by auto
qed

lemma length_align: "length (align n s) = n"
  by (simp add: align_def)

lemma nth_align: "i < n \<Longrightarrow> align n s ! i = (if i < length s then s ! i else JNull)"
  by (auto simp: align_def nth_append)

lemma names_setitem:
  "map fst (setitem df name s) =
     (if name \<in> set (map fst df) then map fst df else map fst df @ [name])"
  by (auto simp: setitem_def case_prod_unfold)

lemma map_of_replace:
  "map_of (map (\<lambda>(n, c). if n = name then (n, x) else (n, c)) d) n =
     (if n = name then (if map_of d name = None then None else Some x) else map_of d n)"
  by (induction d) auto

lemma map_of_setitem:
  "map_of (setitem df name s) n = (if n = name then Some (align (nrows df) s) else map_of df n)"
proof (cases "name \<in> set (map fst df)")
  case True
  then have "map_of df name \<noteq> None" by (simp add: map_of_eq_None_iff)
  with True show ?thesis by (auto simp: setitem_def map_of_replace)
next
  case False
  then have "map_of df name = None" by (simp add: map_of_eq_None_iff)
  with False show ?thesis by (simp add: setitem_def map_add_def split: option.splits)
qed

lemma nrows_setitem: "df \<noteq> [] \<Longrightarrow> nrows (setitem df name s) = nrows df"
  by (cases df) (auto simp: setitem_def nrows_def length_align)

lemma setitem_not_Nil: "setitem df name s \<noteq> []"
  by (auto simp: setitem_def)

lemma map_infer_ok: "map f xs = map Inr ys \<Longrightarrow> map_infer f xs = Inr ys"
  by (induction xs arbitrary: ys) auto

lemma map_infer_InrD: "map_infer f xs = Inr ys \<Longrightarrow> map f xs = map Inr ys"
  by (induction xs arbitrary: ys) (auto split: sum.splits)

lemma map_infer_Inr: "map_infer f xs = Inr ys \<longleftrightarrow> map f xs = map Inr ys"
  using map_infer_ok map_infer_InrD by blast

lemma series_apply_Inr:
  "series_apply f xs = Inr zs \<longleftrightarrow>
     (\<exists>ys. map f xs = map Inr ys \<and> zs = maybe_convert_objects ys)"
proof (cases "map_infer f xs")
  case (Inl e)
  then have "\<not> (\<exists>ys. map f xs = map Inr ys)"
    using map_infer_ok[of f xs] by auto
  with Inl show ?thesis by (auto simp: series_apply_def)
next
  case (Inr ys)
  then have "map f xs = map Inr ys" by (rule map_infer_InrD)
  with Inr show ?thesis
    by (auto simp: series_apply_def dest: map_injective[OF _ inj_Inr])
qed

text \<open>The inferred dtype keeps the missing values where they are, and every cell that is
  not an \<^verbatim>\<open>int\<close> above \<open>2^53\<close> in magnitude.\<close>

declare excess_bits.simps [simp del]

lemma excess_bits_small: "n < 9007199254740992 \<Longrightarrow> excess_bits n = 0"
  by (subst excess_bits.simps) simp

lemma round_half_even_0 [simp]: "round_half_even n 0 = n"
  by (simp add: round_half_even_def)

lemma float64_small:
  assumes "\<bar>n\<bar> \<le> 9007199254740992"
  shows "float64 n = n"
proof -
  have top: "excess_bits 9007199254740992 = Suc 0"
    by (simp add: excess_bits.simps[of 9007199254740992] excess_bits.simps[of 4503599627370496])
  have r: "round_half_even 9007199254740992 (Suc 0) = 9007199254740992"
    by (simp add: round_half_even_def)
  consider "\<bar>n\<bar> < 9007199254740992" | "n = 9007199254740992" | "n = - 9007199254740992"
    using assms by linarith
  then show ?thesis
  proof cases
    case 1
    then show ?thesis by (simp add: float64_def excess_bits_small)
  next
    case 2
    then show ?thesis by (simp add: float64_def top r)
  next
    case 3
    then show ?thesis by (simp add: float64_def top r)
  qed
qed

lemma to_float64_exact: "exact_in_float64 y \<Longrightarrow> to_float64 y = y"
  by (cases y) (simp_all add: float64_small)

lemma to_float64_null [simp]: "to_float64 y = JNull \<longleftrightarrow> y = JNull"
  by (cases y) simp_all

lemma length_maybe_convert [simp]: "length (maybe_convert_objects ys) = length ys"
  by (simp add: maybe_convert_objects_def)

lemma nth_maybe_convert_null:
  "i < length ys \<Longrightarrow> maybe_convert_objects ys ! i = JNull \<longleftrightarrow> ys ! i = JNull"
  by (simp add: maybe_convert_objects_def)

lemma nth_maybe_convert_exact:
  "i < length ys \<Longrightarrow> exact_in_float64 (ys ! i) \<Longrightarrow> maybe_convert_objects ys ! i = ys ! i"
  by (simp add: maybe_convert_objects_def to_float64_exact)

lemma copy_column_Inr:
  "copy_column df dst src name = Inr out \<longleftrightarrow>
     (\<exists>s. map_of src name = Some s \<and> out = setitem df dst s)"
  by (auto simp: copy_column_def getitem_def split: option.splits)

lemma votos_clean_Inr:
  assumes "votos_clean votos_raw = Inr out"
  shows "\<exists>s ids. map_of votos_raw ''deputado_'' = Some s \<and>
           map (\<lambda>x. subscript x ''id'') s = map Inr ids \<and>
           out = setitem (map (\<lambda>n. (n, the (map_of votos_raw n)))
                   [''idVotacao'', ''tipoVoto'', ''dataRegistroVoto'', ''deputado_''])
                   ''deputadoId'' (maybe_convert_objects ids)"
proof -
  let ?ns = "[''idVotacao'', ''tipoVoto'', ''dataRegistroVoto'', ''deputado_'']"
  from assms obtain df s col where
    sel: "select votos_raw ?ns = Inr df" and
    g: "getitem df ''deputado_'' = Inr s" and
    a: "series_apply (\<lambda>x. subscript x ''id'') s = Inr col" and
    out: "out = setitem df ''deputadoId'' col"
    by (auto simp: votos_clean_def convert_dtypes_def split: sum.splits)
  note sel' = select_Inr[THEN iffD1, OF sel]
  from sel' have df: "df = map (\<lambda>n. (n, the (map_of votos_raw n))) ?ns"
    by (rule conjunct2)
  from sel' have "\<forall>n \<in> set ?ns. map_of votos_raw n \<noteq> None"
    by (rule conjunct1)
  then have pres: "map_of votos_raw ''deputado_'' \<noteq> None" by simp
  from g pres have "map_of votos_raw ''deputado_'' = Some s"
    by (auto simp: getitem_Inr df)
  with a out df show ?thesis by (auto simp: series_apply_Inr)
qed

lemma votos_clean_raises:
  assumes "map_of votos_raw ''deputado_'' = Some s" and "x \<in> set s"
    and "subscript x ''id'' = Inl e"
  shows "\<exists>e'. votos_clean votos_raw = Inl e'"
proof (cases "votos_clean votos_raw")
  case (Inl e')
  then show ?thesis by blast
next
  case (Inr out)
  from votos_clean_Inr[OF this] assms(1) obtain ids where
    "map (\<lambda>x. subscript x ''id'') s = map Inr ids" by auto
  then have "subscript x ''id'' \<in> set (map Inr ids)" using assms(2) by (metis image_eqI set_map)
  with assms(3) show ?thesis by auto
qed

lemma json_normalize_column:
  assumes "json_normalize st = Inr u" and "map_of u k = Some c"
  shows "c = maybe_convert_objects (map (\<lambda>x. member_or_na (simple_json_normalize x) k) st)"
  using assms
  by (auto simp: json_normalize_def frame_of_dicts_def comp_def split: if_splits dest!: map_of_SomeD)

lemma simple_json_normalize_not_dict: "\<not> is_dict x \<Longrightarrow> simple_json_normalize x = []"
  by (cases x) simp_all

lemma json_normalize_no_dicts:
  assumes "\<forall>x \<in> set st. \<not> is_dict x" and "json_normalize st = Inr u"
  shows "u = []"
proof -
  have e: "map simple_json_normalize st = map (\<lambda>x. []) st"
    using assms(1) by (simp add: simple_json_normalize_not_dict)
  have c: "concat (map (map fst) (map (\<lambda>x. []) st)) = ([] :: string list)"
    by (induction st) simp_all
  from assms(2) show ?thesis
    unfolding json_normalize_def frame_of_dicts_def e c first_seen_def
    by (simp split: if_splits)
qed

text \<open>What a successful run of the cell computed.\<close>

lemma detalhes_Inr:
  assumes "detalhes_deputados_clean detalhes_raw = Inr out"
  shows "\<exists>st u c1 c2 c3 c4 c5.
           (\<forall>n \<in> set detalhes_selected. map_of detalhes_raw n \<noteq> None) \<and>
           map_of detalhes_raw ''ultimoStatus'' = Some st \<and>
           json_normalize st = Inr u \<and>
           map_of u ''condicaoEleitoral'' = Some c1 \<and>
           map_of u ''situacao'' = Some c2 \<and>
           map_of u ''data'' = Some c3 \<and>
           map_of u ''gabinete.telefone'' = Some c4 \<and>
           map_of u ''siglaPartido'' = Some c5 \<and>
           out = setitem (setitem (setitem (setitem (setitem
                   (map (\<lambda>n. (n, the (map_of detalhes_raw n))) detalhes_selected)
                   ''condicaoEleitoral'' c1) ''situacao'' c2) ''dataUltimoStatus'' c3)
                   ''telefone'' c4) ''siglaPartido'' c5"
proof -
  from assms obtain df0 st u df1 df2 df3 df4 where
    sel: "select detalhes_raw detalhes_selected = Inr df0" and
    g: "getitem df0 ''ultimoStatus'' = Inr st" and
    u: "json_normalize st = Inr u" and
    c1: "copy_column df0 ''condicaoEleitoral'' u ''condicaoEleitoral'' = Inr df1" and
    c2: "copy_column df1 ''situacao'' u ''situacao'' = Inr df2" and
    c3: "copy_column df2 ''dataUltimoStatus'' u ''data'' = Inr df3" and
    c4: "copy_column df3 ''telefone'' u ''gabinete.telefone'' = Inr df4" and
    c5: "copy_column df4 ''siglaPartido'' u ''siglaPartido'' = Inr out"
    unfolding detalhes_deputados_clean_def detalhes_selected_def convert_dtypes_def
    by (auto split: sum.splits)
  note sel' = select_Inr[THEN iffD1, OF sel]
  from sel' have df0: "df0 = map (\<lambda>n. (n, the (map_of detalhes_raw n))) detalhes_selected"
    by (rule conjunct2)
  from sel' have pres: "\<forall>n \<in> set detalhes_selected. map_of detalhes_raw n \<noteq> None"
    by (rule conjunct1)
  from pres have "map_of detalhes_raw ''ultimoStatus'' \<noteq> None"
    by (simp add: detalhes_selected_def)
  with g have st: "map_of detalhes_raw ''ultimoStatus'' = Some st"
    by (auto simp: getitem_Inr df0 detalhes_selected_def)
  from c1 c2 c3 c4 c5 pres st u df0 show ?thesis
    unfolding copy_column_Inr by blast
qed

lemma map_of_selection:
  "map_of (map (\<lambda>n. (n, the (map_of df n))) ns) n =
     (if n \<in> set ns then Some (the (map_of df n)) else None)"
  by (induction ns) auto

text \<open>The frame a successful run of \<^verbatim>\<open>detalhes_deputados_clean\<close> returns.\<close>

lemma detalhes_columns:
  assumes "detalhes_deputados_clean detalhes_raw = Inr out"
  shows "\<exists>st u c1 c2 c3 c4 c5.
           map_of detalhes_raw ''ultimoStatus'' = Some st \<and>
           json_normalize st = Inr u \<and>
           map_of u ''condicaoEleitoral'' = Some c1 \<and>
           map_of u ''situacao'' = Some c2 \<and>
           map_of u ''data'' = Some c3 \<and>
           map_of u ''gabinete.telefone'' = Some c4 \<and>
           map_of u ''siglaPartido'' = Some c5 \<and>
           map fst out = detalhes_selected @ detalhes_added \<and>
           nrows out = length (the (map_of detalhes_raw ''id'')) \<and>
           (\<forall>n \<in> set detalhes_selected. map_of out n = map_of detalhes_raw n) \<and>
           map_of out ''condicaoEleitoral'' = Some (align (nrows out) c1) \<and>
           map_of out ''situacao'' = Some (align (nrows out) c2) \<and>
           map_of out ''dataUltimoStatus'' = Some (align (nrows out) c3) \<and>
           map_of out ''telefone'' = Some (align (nrows out) c4) \<and>
           map_of out ''siglaPartido'' = Some (align (nrows out) c5)"
proof -
  let ?df0 = "map (\<lambda>n. (n, the (map_of detalhes_raw n))) detalhes_selected"
  from detalhes_Inr[OF assms] obtain st u c1 c2 c3 c4 c5 where
    pres: "\<forall>n \<in> set detalhes_selected. map_of detalhes_raw n \<noteq> None" and
    st: "map_of detalhes_raw ''ultimoStatus'' = Some st" and
    u: "json_normalize st = Inr u" and
    c: "map_of u ''condicaoEleitoral'' = Some c1" "map_of u ''situacao'' = Some c2"
       "map_of u ''data'' = Some c3" "map_of u ''gabinete.telefone'' = Some c4"
       "map_of u ''siglaPartido'' = Some c5" and
    out: "out = setitem (setitem (setitem (setitem (setitem ?df0
                   ''condicaoEleitoral'' c1) ''situacao'' c2) ''dataUltimoStatus'' c3)
                   ''telefone'' c4) ''siglaPartido'' c5"
    by blast
  have n0: "nrows ?df0 = length (the (map_of detalhes_raw ''id''))"
    by (simp add: detalhes_selected_def nrows_def)
  have ne: "?df0 \<noteq> []" by (simp add: detalhes_selected_def)
  have n: "nrows out = length (the (map_of detalhes_raw ''id''))"
    unfolding out by (simp only: nrows_setitem[OF setitem_not_Nil] nrows_setitem[OF ne] n0)
  have names: "map fst out = detalhes_selected @ detalhes_added"
    unfolding out
    by (simp add: names_setitem detalhes_selected_def detalhes_added_def comp_def)
  have nr: "nrows (setitem (setitem (setitem (setitem ?df0
                   ''condicaoEleitoral'' c1) ''situacao'' c2) ''dataUltimoStatus'' c3)
                   ''telefone'' c4) = nrows out"
       "nrows (setitem (setitem (setitem ?df0
                   ''condicaoEleitoral'' c1) ''situacao'' c2) ''dataUltimoStatus'' c3) = nrows out"
       "nrows (setitem (setitem ?df0 ''condicaoEleitoral'' c1) ''situacao'' c2) = nrows out"
       "nrows (setitem ?df0 ''condicaoEleitoral'' c1) = nrows out"
       "nrows ?df0 = nrows out"
    unfolding n by (simp_all only: nrows_setitem[OF setitem_not_Nil] nrows_setitem[OF ne] n0)
  have sel: "map_of out k = map_of detalhes_raw k" if "k \<in> set detalhes_selected" for k
  proof -
    from that pres obtain s where s: "map_of detalhes_raw k = Some s" by auto
    from that have "k \<notin> set detalhes_added"
      by (auto simp: detalhes_selected_def detalhes_added_def)
    then show ?thesis
      unfolding out using that s
      by (simp add: map_of_setitem map_of_selection detalhes_added_def)
  qed
  have new: "map_of out ''condicaoEleitoral'' = Some (align (nrows out) c1)"
    "map_of out ''situacao'' = Some (align (nrows out) c2)"
    "map_of out ''dataUltimoStatus'' = Some (align (nrows out) c3)"
    "map_of out ''telefone'' = Some (align (nrows out) c4)"
    "map_of out ''siglaPartido'' = Some (align (nrows out) c5)"
    using nr unfolding out by (simp_all add: map_of_setitem)
  from st u c names n sel new show ?thesis by blast
qed

lemma votos_clean_column:
  assumes "votos_clean votos_raw = Inr out"
  shows "\<exists>s ids. map_of votos_raw ''deputado_'' = Some s \<and>
           map (\<lambda>x. subscript x ''id'') s = map Inr ids \<and>
           map_of out ''deputadoId'' = Some (align (nrows out) (maybe_convert_objects ids))"
proof -
  let ?df = "map (\<lambda>n. (n, the (map_of votos_raw n)))
                   [''idVotacao'', ''tipoVoto'', ''dataRegistroVoto'', ''deputado_'']"
  from votos_clean_Inr[OF assms] obtain s ids where
    s: "map_of votos_raw ''deputado_'' = Some s" and
    ids: "map (\<lambda>x. subscript x ''id'') s = map Inr ids" and
    out: "out = setitem ?df ''deputadoId'' (maybe_convert_objects ids)"
    by blast
  have "?df \<noteq> []" by simp
  then have "nrows out = nrows ?df" unfolding out by (rule nrows_setitem)
  then have "map_of out ''deputadoId'' =
      Some (align (nrows out) (maybe_convert_objects ids))"
    unfolding out by (simp add: map_of_setitem)
  with s ids show ?thesis by blast
qed

lemma votos_clean_ok:
  assumes cols: "\<forall>n \<in> set votos_selected. map_of votos_raw n \<noteq> None"
    and s: "map_of votos_raw ''deputado_'' = Some s"
    and ids: "\<forall>x \<in> set s. \<exists>kvs v. x = JObj kvs \<and> map_of kvs ''id'' = Some v"
  shows "\<exists>out. votos_clean votos_raw = Inr out"
proof -
  let ?ns = "[''idVotacao'', ''tipoVoto'', ''dataRegistroVoto'', ''deputado_'']"
  let ?df = "map (\<lambda>n. (n, the (map_of votos_raw n))) ?ns"
  from cols have sel: "select votos_raw ?ns = Inr ?df"
    unfolding votos_selected_def by (rule select_ok)
  have g: "getitem ?df ''deputado_'' = Inr s"
    by (simp add: getitem_def s)
  have "\<exists>ys. map (\<lambda>x. subscript x ''id'') s = map Inr ys"
    using ids
  proof (induction s)
    case Nil
    then show ?case by simp
  next
    case (Cons x s)
    from Cons.prems obtain kvs v where x: "x = JObj kvs" "map_of kvs ''id'' = Some v"
      by auto
    from Cons obtain ys where "map (\<lambda>x. subscript x ''id'') s = map Inr ys"
      by auto
    with x have "map (\<lambda>x. subscript x ''id'') (x # s) = map Inr (v # ys)"
      by simp
    then show ?case by blast
  qed
  then obtain ys where "map_infer (\<lambda>x. subscript x ''id'') s = Inr ys"
    using map_infer_ok by blast
  with sel g show ?thesis
    by (simp add: votos_clean_def series_apply_def)
qed

lemma detalhes_missing_status:
  assumes "detalhes_deputados_clean detalhes_raw = Inr out"
    and "map_of detalhes_raw ''ultimoStatus'' = Some st"
    and "i < length st" and "i < nrows out" and "\<not> is_dict (st ! i)"
    and "n \<in> set detalhes_added"
  shows "\<exists>c. map_of out n = Some c \<and> c ! i = JNull"
proof -
  from detalhes_columns[OF assms(1)] assms(2) obtain u c1 c2 c3 c4 c5 where
    u: "json_normalize st = Inr u" and
    c: "map_of u ''condicaoEleitoral'' = Some c1" "map_of u ''situacao'' = Some c2"
       "map_of u ''data'' = Some c3" "map_of u ''gabinete.telefone'' = Some c4"
       "map_of u ''siglaPartido'' = Some c5" and
    new: "map_of out ''condicaoEleitoral'' = Some (align (nrows out) c1)"
    "map_of out ''situacao'' = Some (align (nrows out) c2)"
    "map_of out ''dataUltimoStatus'' = Some (align (nrows out) c3)"
    "map_of out ''telefone'' = Some (align (nrows out) c4)"
    "map_of out ''siglaPartido'' = Some (align (nrows out) c5)"
    by auto
  have na: "align (nrows out) cc ! i = JNull" if "map_of u k = Some cc" for k cc
  proof -
    from json_normalize_column[OF u that]
    have cc: "cc = maybe_convert_objects
        (map (\<lambda>x. member_or_na (simple_json_normalize x) k) st)" .
    with assms(3,5) have "cc ! i = JNull"
      by (simp add: nth_maybe_convert_null simple_json_normalize_not_dict member_or_na_def)
    with assms(3,4) cc show ?thesis by (simp add: nth_align)
  qed
  have "\<forall>n \<in> set detalhes_added. \<exists>c. map_of out n = Some c \<and> c ! i = JNull"
    unfolding detalhes_added_def
    by (simp add: new na[OF c(1)] na[OF c(2)] na[OF c(3)] na[OF c(4)] na[OF c(5)])
  with assms(6) show ?thesis by (rule bspec[rotated])
qed

lemma detalhes_no_status_raises:
  assumes "map_of detalhes_raw ''ultimoStatus'' = Some st" and "\<forall>x \<in> set st. \<not> is_dict x"
  shows "\<exists>e. detalhes_deputados_clean detalhes_raw = Inl e"
proof (cases "detalhes_deputados_clean detalhes_raw")
  case (Inl e)
  then show ?thesis by blast
next
  case (Inr out)
  from detalhes_columns[OF this] assms(1) obtain u c1 where
    "json_normalize st = Inr u" "map_of u ''condicaoEleitoral'' = Some c1"
    by auto
  with json_normalize_no_dicts[OF assms(2)] show ?thesis by auto
qed

lemma votacoes_clean_Inr:
  assumes "votacoes_clean votacoes_raw = Inr out"
  shows "map fst out = votacoes_selected \<and>
         (\<forall>n \<in> set votacoes_selected. map_of out n = map_of votacoes_raw n)"
proof -
  from assms have sel: "select votacoes_raw votacoes_selected = Inr out"
    by (auto simp: votacoes_clean_def votacoes_selected_def convert_dtypes_def split: sum.splits)
  note sel' = select_Inr[THEN iffD1, OF sel]
  from sel' have out: "out = map (\<lambda>n. (n, the (map_of votacoes_raw n))) votacoes_selected"
    by (rule conjunct2)
  from sel' have pres: "\<forall>n \<in> set votacoes_selected. map_of votacoes_raw n \<noteq> None"
    by (rule conjunct1)
  have "map fst out = votacoes_selected" unfolding out by (simp add: comp_def)
  moreover have "map_of out n = map_of votacoes_raw n" if "n \<in> set votacoes_selected" for n
    using that pres unfolding out by (auto simp: map_of_selection)
  ultimately show ?thesis by blast
qed


section \<open>The Loader: loading a batch again\<close>

lemma natural_key_write [simp]: "natural_key (write_payload rec r) = natural_key r"
  by (simp add: write_payload_def)

lemma write_payload_same:
  "natural_key r = fst rec \<Longrightarrow> payload r = snd rec \<Longrightarrow> write_payload rec r = r"
  by (simp add: write_payload_def)

lemma write_payload_other: "natural_key r \<noteq> fst rec \<Longrightarrow> write_payload rec r = r"
  by (simp add: write_payload_def)

lemma write_payload_twice:
  "natural_key r = fst rec \<Longrightarrow> write_payload rec (r\<lparr>payload := q\<rparr>) = write_payload rec r"
  by (simp add: write_payload_def)

lemma natural_key_overwrite [simp]: "natural_key (overwrite batch r) = natural_key r"
  unfolding overwrite_def by (induction batch arbitrary: r) simp_all

lemma overwrite_Nil [simp]: "overwrite [] r = r"
  by (simp add: overwrite_def)

lemma overwrite_Cons: "overwrite (rec # batch) r = overwrite batch (write_payload rec r)"
  by (simp add: overwrite_def)

lemma overwrite_snoc: "overwrite (batch @ [rec]) r = write_payload rec (overwrite batch r)"
  by (simp add: overwrite_def)

text \<open>Overwriting changes the payload of a row and nothing else.\<close>

lemma overwrite_form: "\<exists>q. overwrite batch r = r\<lparr>payload := q\<rparr>"
proof (induction batch arbitrary: r)
  case Nil
  have "overwrite [] r = r\<lparr>payload := payload r\<rparr>" by simp
  then show ?case ..
next
  case (Cons rec batch)
  obtain q where q: "overwrite batch (write_payload rec r) = (write_payload rec r)\<lparr>payload := q\<rparr>"
    by (rule exE[OF Cons[of "write_payload rec r"]])
  have "(write_payload rec r)\<lparr>payload := q\<rparr> = r\<lparr>payload := q\<rparr>"
    by (simp add: write_payload_def)
  with q have "overwrite (rec # batch) r = r\<lparr>payload := q\<rparr>" by (simp add: overwrite_Cons)
  then show ?case ..
qed

lemma write_overwrite_settled:
  assumes "natural_key r = fst rec" and "payload r = snd rec"
  shows "write_payload rec (overwrite batch r) = r"
proof -
  obtain q where q: "overwrite batch r = r\<lparr>payload := q\<rparr>"
    by (rule exE[OF overwrite_form[of batch r]])
  from assms show ?thesis
    by (simp add: q write_payload_twice write_payload_same)
qed

lemma fold_upsert_filter:
  "fold (upsert_row accepts) batch tb = fold (upsert_row (\<lambda>rec. True)) (filter accepts batch) tb"
  by (induction batch arbitrary: tb) (simp_all add: upsert_row_def)

lemma keys_write:
  "natural_key ` set (map (write_payload rec) rs) = natural_key ` set rs"
  by (simp add: image_image)

lemma keys_upsert:
  "natural_key ` set (stored (upsert_row (\<lambda>rec. True) rec tb)) =
     insert (fst rec) (natural_key ` set (stored tb))"
proof (cases "fst rec \<in> natural_key ` set (stored tb)")
  case True
  then have "stored (upsert_row (\<lambda>rec. True) rec tb) = map (write_payload rec) (stored tb)"
    by (simp add: upsert_row_def)
  with True show ?thesis by (simp only: keys_write insert_absorb)
next
  case False
  then show ?thesis by (simp add: upsert_row_def)
qed

lemma keys_fold_upsert:
  "natural_key ` set (stored (fold (upsert_row (\<lambda>rec. True)) batch tb)) =
     fst ` set batch \<union> natural_key ` set (stored tb)"
proof (induction batch arbitrary: tb)
  case Nil
  then show ?case by simp
next
  case (Cons rec batch)
  show ?case
    by (simp only: fold_simps Cons.IH keys_upsert) auto
qed

text \<open>A batch whose keys are all stored only overwrites.\<close>

lemma fold_upsert_present:
  "fst ` set batch \<subseteq> natural_key ` set (stored tb) \<Longrightarrow>
   fold (upsert_row (\<lambda>rec. True)) batch tb = tb\<lparr>stored := map (overwrite batch) (stored tb)\<rparr>"
proof (induction batch arbitrary: tb)
  case Nil
  then show ?case by simp
next
  case (Cons rec batch)
  let ?tb = "tb\<lparr>stored := map (write_payload rec) (stored tb)\<rparr>"
  from Cons.prems have u: "upsert_row (\<lambda>rec. True) rec tb = ?tb"
    by (simp add: upsert_row_def)
  have k: "natural_key ` set (stored ?tb) = natural_key ` set (stored tb)"
    by (simp add: image_image)
  from Cons.prems have "fst ` set batch \<subseteq> natural_key ` set (stored ?tb)"
    unfolding k by simp
  from Cons.IH[OF this] have
    "fold (upsert_row (\<lambda>rec. True)) batch ?tb = ?tb\<lparr>stored := map (overwrite batch) (stored ?tb)\<rparr>" .
  then show ?case
    by (simp add: u overwrite_Cons comp_def)
qed

text \<open>After a load, every stored row already has what the batch would write.\<close>

lemma fold_upsert_settled:
  "r \<in> set (stored (fold (upsert_row (\<lambda>rec. True)) batch tb)) \<Longrightarrow> overwrite batch r = r"
proof (induction batch arbitrary: r rule: rev_induct)
  case Nil
  then show ?case by simp
next
  case (snoc rec batch)
  let ?T = "fold (upsert_row (\<lambda>rec. True)) batch tb"
  from snoc.prems have r: "r \<in> set (stored (upsert_row (\<lambda>rec. True) rec ?T))" by simp
  show ?case
  proof (cases "fst rec \<in> natural_key ` set (stored ?T)")
    case True
    then have "stored (upsert_row (\<lambda>rec. True) rec ?T) = map (write_payload rec) (stored ?T)"
      by (simp add: upsert_row_def)
    with r obtain r0 where r0: "r0 \<in> set (stored ?T)" and rr: "r = write_payload rec r0"
      by auto
    from snoc.IH[OF r0] have s0: "overwrite batch r0 = r0" .
    show ?thesis
    proof (cases "natural_key r0 = fst rec")
      case True
      with rr have "natural_key r = fst rec" "payload r = snd rec"
        by (simp_all add: write_payload_def)
      then show ?thesis by (simp add: overwrite_snoc write_overwrite_settled)
    next
      case False
      with rr have "r = r0" by (simp add: write_payload_other)
      with s0 False show ?thesis by (simp add: overwrite_snoc write_payload_other)
    qed
  next
    case False
    then have "stored (upsert_row (\<lambda>rec. True) rec ?T) =
        stored ?T @ [\<lparr>row_id = serial ?T + 1, natural_key = fst rec, payload = snd rec\<rparr>]"
      by (simp add: upsert_row_def)
    with r consider "r \<in> set (stored ?T)"
      | "r = \<lparr>row_id = serial ?T + 1, natural_key = fst rec, payload = snd rec\<rparr>"
      by auto
    then show ?thesis
    proof cases
      case 1
      with False have "natural_key r \<noteq> fst rec" by (metis imageI)
      with snoc.IH[OF 1] show ?thesis by (simp add: overwrite_snoc write_payload_other)
    next
      case 2
      then have "natural_key r = fst rec" "payload r = snd rec" by simp_all
      then show ?thesis by (simp add: overwrite_snoc write_overwrite_settled)
    qed
  qed
qed

lemma fold_upsert_twice:
  "fold (upsert_row (\<lambda>rec. True)) batch (fold (upsert_row (\<lambda>rec. True)) batch tb) =
   fold (upsert_row (\<lambda>rec. True)) batch tb"
proof -
  let ?T = "fold (upsert_row (\<lambda>rec. True)) batch tb"
  have "fst ` set batch \<subseteq> natural_key ` set (stored ?T)"
    by (simp add: keys_fold_upsert)
  from fold_upsert_present[OF this]
  have "fold (upsert_row (\<lambda>rec. True)) batch ?T = ?T\<lparr>stored := map (overwrite batch) (stored ?T)\<rparr>" .
  moreover have "map (overwrite batch) (stored ?T) = stored ?T"
    by (rule map_idI) (rule fold_upsert_settled)
  ultimately show ?thesis by simp
qed

lemma load_batch_twice:
  "load_batch shaped accepts batch (load_batch shaped accepts batch tb) =
   load_batch shaped accepts batch tb"
proof -
  have "fold (upsert_row accepts) batch (fold (upsert_row accepts) batch tb) =
      fold (upsert_row accepts) batch tb"
    using fold_upsert_twice[of "filter accepts batch" tb]
    by (simp only: fold_upsert_filter[of accepts])
  then show ?thesis by (simp add: load_batch_def)
qed

lemma distinct_keys_upsert:
  assumes "distinct (map natural_key (stored tb))"
  shows "distinct (map natural_key (stored (upsert_row accepts rec tb)))"
proof -
  have "map natural_key (map (write_payload rec) (stored tb)) = map natural_key (stored tb)"
    by simp
  with assms show ?thesis
    by (auto simp: upsert_row_def simp del: map_map)
qed

lemma distinct_keys_load:
  "distinct (map natural_key (stored tb)) \<Longrightarrow>
   distinct (map natural_key (stored (load_batch shaped accepts batch tb)))"
proof -
  have "distinct (map natural_key (stored tb)) \<Longrightarrow>
      distinct (map natural_key (stored (fold (upsert_row accepts) batch tb)))"
    by (induction batch arbitrary: tb) (simp_all add: distinct_keys_upsert)
  then show "distinct (map natural_key (stored tb)) \<Longrightarrow>
   distinct (map natural_key (stored (load_batch shaped accepts batch tb)))"
    by (simp add: load_batch_def)
qed

section \<open>The Watermark Store: rows and cursors\<close>

lemma wm_get_Nil [simp]: "wm_get [] k = None"
  by (simp add: wm_get_def)



lemma wm_key_update [simp]: "wm_key (r\<lparr>cursor := c\<rparr>) = wm_key r"
  by (simp add: wm_key_def)

lemma keys_set_cursor [simp]: "map wm_key (set_cursor w k c) = map wm_key w"
  by (simp add: set_cursor_def)







lemma cursor_le_refl [simp]: "cursor_le c c"
  by (cases c) simp_all

















section \<open>The entrypoint: the default of DATABASE_URL\<close>

lemma before_start: "before_default e0 (start e0 as)"
  by (simp add: before_default_def start_def)

lemma before_exec_cmd:
  "before_default e0 s \<Longrightarrow> \<not> uses_database c \<Longrightarrow> before_default e0 (exec_cmd ok c s)"
  by (auto simp: before_default_def exec_cmd_def)

lemma after_set_default_url:
  "before_default e0 s \<Longrightarrow> after_default e0 (set_default_url s)"
  by (auto simp: before_default_def after_default_def set_default_url_def test_z_def
      expand_def export_var_def seen_env_def effective_url_def split: option.splits)

lemma after_exec_cmd: "after_default e0 s \<Longrightarrow> after_default e0 (exec_cmd ok c s)"
  by (auto simp: after_default_def exec_cmd_def)

lemma after_exec_bg: "after_default e0 s \<Longrightarrow> after_default e0 (exec_bg c s)"
  by (auto simp: after_default_def exec_bg_def)

lemma after_init_db: "after_default e0 s \<Longrightarrow> after_default e0 (init_db ok s)"
  by (simp add: init_db_def Let_def after_exec_cmd)

lemma after_run_etl: "after_default e0 s \<Longrightarrow> after_default e0 (run_etl ok s)"
  by (simp add: run_etl_def Let_def after_exec_cmd)

lemma after_keep_running: "after_default e0 s \<Longrightarrow> after_default e0 (keep_running ok s)"
  by (simp add: keep_running_def Let_def after_exec_cmd)

lemma after_branch:
  "after_default e0 s \<Longrightarrow>
   after_default e0 (if arg1 s = ''init-db'' then init_db ok s
                     else if arg1 s = ''etl'' then run_etl ok s else s)"
  by (simp add: after_init_db after_run_etl)

lemma after_entrypoint_cron: "after_default e0 (entrypoint_cron ok (start e0 as))"
proof -
  have "before_default e0 (exec_cmd ok (Mkdir ''/app/logs'')
          (exec_cmd ok (Mkdir ''/app/data/processed'')
            (exec_cmd ok (Mkdir ''/app/data/raw'') (start e0 as))))"
    by (simp add: before_exec_cmd before_start)
  then show ?thesis
    unfolding entrypoint_cron_def Let_def
    by (intro after_keep_running after_branch after_exec_cmd after_set_default_url)
qed

lemma after_entrypoint_scheduler: "after_default e0 (entrypoint_scheduler ok (start e0 as))"
proof -
  have "before_default e0 (exec_cmd ok (Touch ''/app/logs/etl.log'')
          (exec_cmd ok (Mkdir ''/app/logs'')
            (exec_cmd ok (Mkdir ''/app/data/processed'')
              (exec_cmd ok (Mkdir ''/app/data/raw'') (start e0 as)))))"
    by (simp add: before_exec_cmd before_start)
  then have a: "after_default e0 (set_default_url (exec_cmd ok (Touch ''/app/logs/etl.log'')
          (exec_cmd ok (Mkdir ''/app/logs'')
            (exec_cmd ok (Mkdir ''/app/data/processed'')
              (exec_cmd ok (Mkdir ''/app/data/raw'') (start e0 as))))))"
    by (rule after_set_default_url)
  show ?thesis
    unfolding entrypoint_scheduler_def Let_def
    by (rule after_keep_running)
       (simp add: a after_init_db after_run_etl after_exec_cmd after_exec_bg)
qed

text \<open>
  Claim C10, as the script has it. In both revisions, whatever the container's
  environment \<open>e0\<close>, its parameters and the outcome of each command, every command that
  initialises the database, runs the ETL or starts a scheduler (or cron) is started in the
  environment \<open>e0\<close> with \<^verbatim>\<open>DATABASE_URL\<close> set to the effective URL: the fixed default
  when the variable was unset or empty, its own value otherwise. Every other variable is
  the container's.
\<close>

theorem entrypoint_database_url:
  "(\<forall>(c, e) \<in> set (trace (entrypoint_cron ok (start e0 as))).
      uses_database c \<longrightarrow> e = e0(''DATABASE_URL'' \<mapsto> effective_url e0)) \<and>
   (\<forall>(c, e) \<in> set (trace (entrypoint_scheduler ok (start e0 as))).
      uses_database c \<longrightarrow> e = e0(''DATABASE_URL'' \<mapsto> effective_url e0))"
  using after_entrypoint_cron[of e0 ok as] after_entrypoint_scheduler[of e0 ok as]
  by (simp add: after_default_def seen_env_def)

text \<open>The theorem at a container started with \<^verbatim>\<open>init-db\<close> and a non-empty
  \<^verbatim>\<open>DATABASE_URL\<close>: the table creation runs, and it sees the given value.\<close>

theorem entrypoint_database_url_witness:
  "uses_database (Python ''app.database.create_tables'' []) \<and>
   (\<exists>e. (Python ''app.database.create_tables'' [], e)
          \<in> set (trace (entrypoint_scheduler all_succeed
                 (start [''DATABASE_URL'' \<mapsto> ''postgresql://u:p@h/d''] [''init-db'']))) \<and>
        e ''DATABASE_URL'' = Some ''postgresql://u:p@h/d'')"
proof -
  let ?e0 = "[''DATABASE_URL'' \<mapsto> ''postgresql://u:p@h/d'']"
  let ?c = "Python ''app.database.create_tables'' []"
  have m: "(?c, ?e0) \<in> set (trace (entrypoint_scheduler all_succeed (start ?e0 [''init-db''])))"
    unfolding entrypoint_scheduler_def init_db_def keep_running_def run_etl_def Let_def
    by (simp add: exec_cmd_def start_def set_default_url_def test_z_def expand_def arg1_def
        all_succeed_def)
  have u: "uses_database ?c" by simp
  from entrypoint_database_url[of all_succeed ?e0 "[''init-db'']"] m u
  have "?e0 = ?e0(''DATABASE_URL'' \<mapsto> effective_url ?e0)" by blast
  then have "effective_url ?e0 = ''postgresql://u:p@h/d''"
    by (metis fun_upd_same option.inject)
  with m u show ?thesis by (intro conjI exI[of _ ?e0]) simp_all
qed

text \<open>
  Claim C10 as written says that a \<^verbatim>\<open>DATABASE_URL\<close> that is already set is left unchanged.
  The test is \<^verbatim>\<open>[ -z "$DATABASE_URL" ]\<close>, which is also true of a variable set to the empty
  string (what \<^verbatim>\<open>DATABASE_URL=${DATABASE_URL}\<close> of the compose file passes when the host
  has none): the script then replaces the value by the default.
\<close>

theorem entrypoint_database_url_counterexample:
  "env (entrypoint_scheduler all_succeed (start [''DATABASE_URL'' \<mapsto> ''''] [''init-db'']))
     ''DATABASE_URL'' = Some default_url \<and>
   env (entrypoint_cron all_succeed (start [''DATABASE_URL'' \<mapsto> ''''] [''init-db'']))
     ''DATABASE_URL'' = Some default_url \<and>
   default_url \<noteq> ''''"
  unfolding entrypoint_scheduler_def entrypoint_cron_def init_db_def keep_running_def
    run_etl_def Let_def
  by (simp add: exec_cmd_def start_def set_default_url_def test_z_def expand_def export_var_def
      arg1_def all_succeed_def default_url_def)

section \<open>The store: the claims about the schema\<close>

text \<open>
  Claim C2, as the DDL has it. The only columns the schema keeps unique are the primary
  keys, the column \<^verbatim>\<open>id\<close> of each table (a \<^verbatim>\<open>SERIAL\<close> surrogate in \<^verbatim>\<open>despesas\<close>, \<^verbatim>\<open>discursos\<close>
  and \<^verbatim>\<open>votos\<close>): after any session of statements on the tables the DDL creates, no two rows
  of a table have the same \<^verbatim>\<open>id\<close>, and no \<^verbatim>\<open>id\<close> is \<^verbatim>\<open>NULL\<close>. The four indexes of the DDL
  are not unique, so they add no such column.
\<close>

theorem unique_on_primary_key_only:
  "unique_cols t = [''id''] \<and>
   distinct (column_values (run ss empty_db) t ''id'') \<and>
   Null \<notin> set (column_values (run ss empty_db) t ''id'')"
  using session_ids[of ss t] by (simp add: unique_cols_id)

text \<open>
  The theorem on the sample session: the two votes it stores have the ids 1 and 2.
\<close>

theorem unique_on_primary_key_only_witness:
  "column_values (run load_twice empty_db) Votos ''id'' = [IntV 1, IntV 2] \<and>
   distinct (column_values (run load_twice empty_db) Votos ''id'')"
proof -
  have "column_values (run load_twice empty_db) Votos ''id'' = [IntV 1, IntV 2]"
    by code_simp
  with unique_on_primary_key_only[of Votos load_twice] show ?thesis by simp
qed

text \<open>
  Claim C2 as written says that two rows with the same natural key can never coexist. The
  sample session inserts the same expense, the same speech and the same vote twice, and
  every statement is done: each table then holds two rows with one natural key (deputy,
  document code, year and month; deputy and start; voting session and deputy).
\<close>

theorem natural_keys_counterexample:
  "map vote_key (rows (run load_twice empty_db) Votos) =
     [(StrV ''2265603-43'', IntV 204554), (StrV ''2265603-43'', IntV 204554)] \<and>
   map expense_key (rows (run load_twice empty_db) Despesas) =
     [(IntV 204554, IntV 7654321, IntV 2024, IntV 1),
      (IntV 204554, IntV 7654321, IntV 2024, IntV 1)] \<and>
   map speech_key (rows (run load_twice empty_db) Discursos) =
     [(IntV 204554, TimestampV 1705312800000000),
      (IntV 204554, TimestampV 1705312800000000)]"
  by code_simp

text \<open>
  Claim C5. After any session of statements, every row of \<^verbatim>\<open>despesas\<close> and of \<^verbatim>\<open>discursos\<close>
  has a \<^verbatim>\<open>deputado_id\<close> that is not \<^verbatim>\<open>NULL\<close> and is the \<^verbatim>\<open>id\<close> of a row of \<^verbatim>\<open>deputados\<close>, and
  every row of \<^verbatim>\<open>votos\<close> has in addition a \<^verbatim>\<open>votacao_id\<close> that is the \<^verbatim>\<open>id\<close> of a row of
  \<^verbatim>\<open>votacoes\<close>. In any state of the store, an \<^verbatim>\<open>INSERT\<close> of a dependent row fails when the
  \<^verbatim>\<open>deputado_id\<close> it gives (for a vote: the \<^verbatim>\<open>deputado_id\<close> or the \<^verbatim>\<open>votacao_id\<close>) is not the
  \<^verbatim>\<open>id\<close> of a stored parent row.
\<close>

theorem referential_integrity:
  "(\<forall>r \<in> set (rows (run ss empty_db) Despesas).
      get r ''deputado_id'' \<noteq> Null \<and>
      get r ''deputado_id'' \<in> set (column_values (run ss empty_db) Deputados ''id'')) \<and>
   (\<forall>r \<in> set (rows (run ss empty_db) Discursos).
      get r ''deputado_id'' \<noteq> Null \<and>
      get r ''deputado_id'' \<in> set (column_values (run ss empty_db) Deputados ''id'')) \<and>
   (\<forall>r \<in> set (rows (run ss empty_db) Votos).
      get r ''deputado_id'' \<noteq> Null \<and>
      get r ''deputado_id'' \<in> set (column_values (run ss empty_db) Deputados ''id'') \<and>
      get r ''votacao_id'' \<noteq> Null \<and>
      get r ''votacao_id'' \<in> set (column_values (run ss empty_db) Votacoes ''id'')) \<and>
   (get given ''deputado_id'' \<notin> set (column_values db Deputados ''id'') \<longrightarrow>
      \<not> is_done (insert_into Despesas given db) \<and>
      \<not> is_done (insert_into Discursos given db) \<and>
      \<not> is_done (insert_into Votos given db)) \<and>
   (get given ''votacao_id'' \<notin> set (column_values db Votacoes ''id'') \<longrightarrow>
      \<not> is_done (insert_into Votos given db))"
proof (intro conjI ballI impI)
  fix r assume "r \<in> set (rows (run ss empty_db) Despesas)"
  from session_parent[OF this schema_members(1)]
  show "get r ''deputado_id'' \<noteq> Null"
    and "get r ''deputado_id'' \<in> set (column_values (run ss empty_db) Deputados ''id'')"
    by (simp_all add: fks_of_simps)
next
  fix r assume "r \<in> set (rows (run ss empty_db) Discursos)"
  from session_parent[OF this schema_members(2)]
  show "get r ''deputado_id'' \<noteq> Null"
    and "get r ''deputado_id'' \<in> set (column_values (run ss empty_db) Deputados ''id'')"
    by (simp_all add: fks_of_simps)
next
  fix r assume r: "r \<in> set (rows (run ss empty_db) Votos)"
  from session_parent[OF r schema_members(3)]
  show "get r ''deputado_id'' \<noteq> Null"
    and "get r ''deputado_id'' \<in> set (column_values (run ss empty_db) Deputados ''id'')"
    by (simp_all add: fks_of_simps)
  from session_parent[OF r schema_members(4)]
  show "get r ''votacao_id'' \<noteq> Null"
    and "get r ''votacao_id'' \<in> set (column_values (run ss empty_db) Votacoes ''id'')"
    by (simp_all add: fks_of_simps)
next
  assume a: "get given ''deputado_id'' \<notin> set (column_values db Deputados ''id'')"
  from insert_needs_parent[OF schema_members(1), of Deputados "''id''" given db] a
  show "\<not> is_done (insert_into Despesas given db)" by (simp add: fks_of_simps)
  from insert_needs_parent[OF schema_members(2), of Deputados "''id''" given db] a
  show "\<not> is_done (insert_into Discursos given db)" by (simp add: fks_of_simps)
  from insert_needs_parent[OF schema_members(3), of Deputados "''id''" given db] a
  show "\<not> is_done (insert_into Votos given db)" by (simp add: fks_of_simps)
next
  assume a: "get given ''votacao_id'' \<notin> set (column_values db Votacoes ''id'')"
  from insert_needs_parent[OF schema_members(4), of Votacoes "''id''" given db] a
  show "\<not> is_done (insert_into Votos given db)" by (simp add: fks_of_simps)
qed

text \<open>
  The theorem on the sample data: the votes of the sample session refer to the one deputy
  it stored, and the sample vote cannot be inserted into the empty store.
\<close>

theorem referential_integrity_witness:
  "map (\<lambda>r. get r ''deputado_id'') (rows (run load_twice empty_db) Votos) =
     [IntV 204554, IntV 204554] \<and>
   column_values (run load_twice empty_db) Deputados ''id'' = [IntV 204554] \<and>
   get a_voto ''deputado_id'' \<notin> set (column_values empty_db Deputados ''id'') \<and>
   \<not> is_done (insert_into Votos a_voto empty_db)"
proof -
  have a: "map (\<lambda>r. get r ''deputado_id'') (rows (run load_twice empty_db) Votos) =
     [IntV 204554, IntV 204554]"
    by code_simp
  have b: "column_values (run load_twice empty_db) Deputados ''id'' = [IntV 204554]"
    by code_simp
  have c: "get a_voto ''deputado_id'' \<notin> set (column_values empty_db Deputados ''id'')"
    by code_simp
  note th = referential_integrity[of load_twice a_voto empty_db]
  from th c have "\<not> is_done (insert_into Votos a_voto empty_db)" by blast
  with a b c show ?thesis by simp
qed

text \<open>
  Claim C6. The three monetary columns of \<^verbatim>\<open>despesas\<close> are declared \<^verbatim>\<open>NUMERIC\<close>. After any
  session, each of them holds a \<^verbatim>\<open>NUMERIC\<close> value (an exact decimal, never \<^verbatim>\<open>NULL\<close>) in every
  row, and the row a successful \<^verbatim>\<open>INSERT\<close> stores holds in them exactly the values it was
  given, so reading the row back returns the amounts unchanged.
\<close>

theorem monetary_fields_numeric:
  "map ctype (filter (\<lambda>c. cname c \<in> {''valor_documento'', ''valor_liquido'', ''valor_glosa''})
      despesas) = [NUMERIC, NUMERIC, NUMERIC] \<and>
   (\<forall>r \<in> set (rows (run ss empty_db) Despesas).
      (\<exists>x. get r ''valor_documento'' = NumV x) \<and>
      (\<exists>x. get r ''valor_liquido'' = NumV x) \<and>
      (\<exists>x. get r ''valor_glosa'' = NumV x)) \<and>
   (insert_into Despesas given db = Done db' \<longrightarrow>
      (\<exists>r. rows db' Despesas = rows db Despesas @ [r] \<and>
           get r ''valor_documento'' = get given ''valor_documento'' \<and>
           get r ''valor_liquido'' = get given ''valor_liquido'' \<and>
           get r ''valor_glosa'' = get given ''valor_glosa''))"
proof (intro conjI ballI impI)
  show "map ctype (filter (\<lambda>c. cname c \<in> {''valor_documento'', ''valor_liquido'', ''valor_glosa''})
      despesas) = [NUMERIC, NUMERIC, NUMERIC]"
    by (simp add: despesas_def)
next
  fix r assume r: "r \<in> set (rows (run ss empty_db) Despesas)"
  from session_required[OF r schema_members(5)]
  show "\<exists>x. get r ''valor_documento'' = NumV x" by (simp add: conforms_NUMERIC)
  from session_required[OF r schema_members(6)]
  show "\<exists>x. get r ''valor_liquido'' = NumV x" by (simp add: conforms_NUMERIC)
  from session_required[OF r schema_members(7)]
  show "\<exists>x. get r ''valor_glosa'' = NumV x" by (simp add: conforms_NUMERIC)
next
  assume "insert_into Despesas given db = Done db'"
  from insert_into_stores[OF this] obtain r where
    r: "rows db' = (rows db)(Despesas := rows db Despesas @ [r])" and
    g: "\<forall>c \<in> set (schema Despesas). ctype c \<noteq> SERIAL \<or> map_of given (cname c) \<noteq> None \<longrightarrow>
              get r (cname c) = get given (cname c)"
    by blast
  from g schema_members(5-7) have
    "get r ''valor_documento'' = get given ''valor_documento''"
    "get r ''valor_liquido'' = get given ''valor_liquido''"
    "get r ''valor_glosa'' = get given ''valor_glosa''"
    by fastforce+
  with r show "\<exists>r. rows db' Despesas = rows db Despesas @ [r] \<and>
           get r ''valor_documento'' = get given ''valor_documento'' \<and>
           get r ''valor_liquido'' = get given ''valor_liquido'' \<and>
           get r ''valor_glosa'' = get given ''valor_glosa''"
    by simp
qed

text \<open>
  The theorem on the sample expense: 123.45, 123.10 and 0.35 are stored and read back
  digit for digit.
\<close>

theorem monetary_fields_numeric_witness:
  "map (\<lambda>r. get r ''valor_documento'') (rows (run load_twice empty_db) Despesas) =
     [NumV (Dec 12345 2), NumV (Dec 12345 2)] \<and>
   is_done (insert_into Despesas a_despesa (run [INSERT Deputados a_deputado] empty_db)) \<and>
   map (\<lambda>r. (get r ''valor_documento'', get r ''valor_liquido'', get r ''valor_glosa''))
     (rows (db_of (insert_into Despesas a_despesa (run [INSERT Deputados a_deputado] empty_db)))
        Despesas) =
     [(NumV (Dec 12345 2), NumV (Dec 12310 2), NumV (Dec 35 2))]"
proof -
  let ?db = "run [INSERT Deputados a_deputado] empty_db"
  let ?out = "insert_into Despesas a_despesa ?db"
  have a: "map (\<lambda>r. get r ''valor_documento'') (rows (run load_twice empty_db) Despesas) =
     [NumV (Dec 12345 2), NumV (Dec 12345 2)]"
    by code_simp
  have d: "is_done ?out" by code_simp
  have e: "rows ?db Despesas = []" by code_simp
  have g: "get a_despesa ''valor_documento'' = NumV (Dec 12345 2)"
    "get a_despesa ''valor_liquido'' = NumV (Dec 12310 2)"
    "get a_despesa ''valor_glosa'' = NumV (Dec 35 2)"
    by code_simp+
  from monetary_fields_numeric[of load_twice a_despesa ?db "db_of ?out"] is_done_eq[OF d]
  obtain r where "rows (db_of ?out) Despesas = rows ?db Despesas @ [r]"
    "get r ''valor_documento'' = get a_despesa ''valor_documento''"
    "get r ''valor_liquido'' = get a_despesa ''valor_liquido''"
    "get r ''valor_glosa'' = get a_despesa ''valor_glosa''"
    by auto
  with a d e g show ?thesis by simp
qed

text \<open>
  Claim C8. The primary key of \<^verbatim>\<open>votacoes\<close> is the column \<^verbatim>\<open>id VARCHAR\<close>, and the table has no
  \<^verbatim>\<open>SERIAL\<close> column. After any session the ids of its rows are strings, no two rows share one,
  and the table's sequence was never advanced. The row a successful \<^verbatim>\<open>INSERT\<close> stores has the
  id it was given, which is not \<^verbatim>\<open>NULL\<close>: the store never makes one up.
\<close>

theorem votacoes_external_id:
  "find (\<lambda>c. cname c = ''id'') votacoes = Some (PRIMARY_KEY (col ''id'' VARCHAR)) \<and>
   SERIAL \<notin> set (map ctype votacoes) \<and>
   distinct (column_values (run ss empty_db) Votacoes ''id'') \<and>
   (\<forall>v \<in> set (column_values (run ss empty_db) Votacoes ''id''). \<exists>s. v = StrV s) \<and>
   last_value (run ss empty_db) Votacoes = 0 \<and>
   (insert_into Votacoes given db = Done db' \<longrightarrow>
      (\<exists>r. rows db' Votacoes = rows db Votacoes @ [r] \<and>
           get r ''id'' = get given ''id'' \<and> get given ''id'' \<noteq> Null))"
proof (intro conjI ballI impI)
  show "find (\<lambda>c. cname c = ''id'') votacoes = Some (PRIMARY_KEY (col ''id'' VARCHAR))"
    by (simp add: votacoes_def)
  show "SERIAL \<notin> set (map ctype votacoes)"
    using votacoes_no_serial by auto
  show "distinct (column_values (run ss empty_db) Votacoes ''id'')"
    using session_ids[of ss Votacoes] by simp
  show "last_value (run ss empty_db) Votacoes = 0"
    by (simp add: last_value_run_votacoes empty_db_def)
next
  fix v assume "v \<in> set (column_values (run ss empty_db) Votacoes ''id'')"
  then obtain r where r: "r \<in> set (rows (run ss empty_db) Votacoes)" and v: "v = get r ''id''"
    by (auto simp: column_values_def)
  from session_required[OF r schema_members(8)] show "\<exists>s. v = StrV s"
    by (simp add: v conforms_VARCHAR)
next
  assume d: "insert_into Votacoes given db = Done db'"
  from insert_into_keeps[OF d schema_members(8)] insert_into_required[OF d schema_members(8)]
  show "\<exists>r. rows db' Votacoes = rows db Votacoes @ [r] \<and>
           get r ''id'' = get given ''id'' \<and> get given ''id'' \<noteq> Null"
    by auto
qed

text \<open>
  The theorem on the sample voting session: it is stored under its external id
  \<^verbatim>\<open>2265603-43\<close>.
\<close>

theorem votacoes_external_id_witness:
  "column_values (run load_twice empty_db) Votacoes ''id'' = [StrV ''2265603-43''] \<and>
   is_done (insert_into Votacoes a_votacao empty_db) \<and>
   column_values (db_of (insert_into Votacoes a_votacao empty_db)) Votacoes ''id'' =
     [StrV ''2265603-43''] \<and>
   last_value (run load_twice empty_db) Votacoes = 0"
proof -
  let ?out = "insert_into Votacoes a_votacao empty_db"
  have a: "column_values (run load_twice empty_db) Votacoes ''id'' = [StrV ''2265603-43'']"
    by code_simp
  have d: "is_done ?out" by code_simp
  have e: "rows empty_db Votacoes = []" by code_simp
  have g: "get a_votacao ''id'' = StrV ''2265603-43''" by code_simp
  note th = votacoes_external_id[of load_twice a_votacao empty_db "db_of ?out"]
  from th is_done_eq[OF d]
  obtain r where "rows (db_of ?out) Votacoes = rows empty_db Votacoes @ [r]"
    "get r ''id'' = get a_votacao ''id''"
    by auto
  with e g have "column_values (db_of ?out) Votacoes ''id'' = [StrV ''2265603-43'']"
    by (simp add: column_values_def)
  moreover from th have "last_value (run load_twice empty_db) Votacoes = 0" by blast
  ultimately show ?thesis using a d by simp
qed

text \<open>
  Claim C9. After any session every row of \<^verbatim>\<open>votacoes\<close> has a boolean \<^verbatim>\<open>aprovacao\<close> and a JSON
  value in \<^verbatim>\<open>tipo_votacao\<close>, neither of them \<^verbatim>\<open>NULL\<close>; an \<^verbatim>\<open>INSERT\<close> that gives no value, or
  \<^verbatim>\<open>NULL\<close>, for one of the two columns fails. (A JSON \<^verbatim>\<open>null\<close> is a value of type \<^verbatim>\<open>JSONB\<close>
  and not SQL \<^verbatim>\<open>NULL\<close>.)
\<close>

theorem votacoes_outcome_not_null:
  "(\<forall>r \<in> set (rows (run ss empty_db) Votacoes).
      (\<exists>b. get r ''aprovacao'' = BoolV b) \<and> (\<exists>j. get r ''tipo_votacao'' = JsonV j)) \<and>
   (get given ''aprovacao'' = Null \<or> get given ''tipo_votacao'' = Null \<longrightarrow>
      \<not> is_done (insert_into Votacoes given db))"
proof (intro conjI ballI impI)
  fix r assume r: "r \<in> set (rows (run ss empty_db) Votacoes)"
  from session_required[OF r schema_members(10)]
  show "\<exists>b. get r ''aprovacao'' = BoolV b" by (simp add: conforms_BOOLEAN)
  from session_required[OF r schema_members(9)]
  show "\<exists>j. get r ''tipo_votacao'' = JsonV j" by (simp add: conforms_JSONB)
next
  assume "get given ''aprovacao'' = Null \<or> get given ''tipo_votacao'' = Null"
  then show "\<not> is_done (insert_into Votacoes given db)"
    using insert_needs_value[OF schema_members(10), of given db]
      insert_needs_value[OF schema_members(9), of given db]
    by auto
qed

text \<open>
  The theorem on the sample voting session: it is stored with its outcome flag, and
  without the flag it cannot be inserted.
\<close>

theorem votacoes_outcome_not_null_witness:
  "map (\<lambda>r. (get r ''aprovacao'', get r ''tipo_votacao'')) (rows (run load_twice empty_db) Votacoes) =
     [(BoolV True, JsonV (JObj [(''nome'', JStr ''Nominal'')]))] \<and>
   get (butlast a_votacao) ''aprovacao'' = Null \<and>
   \<not> is_done (insert_into Votacoes (butlast a_votacao) empty_db)"
proof -
  have a: "map (\<lambda>r. (get r ''aprovacao'', get r ''tipo_votacao''))
      (rows (run load_twice empty_db) Votacoes) =
     [(BoolV True, JsonV (JObj [(''nome'', JStr ''Nominal'')]))]"
    by code_simp
  have n: "get (butlast a_votacao) ''aprovacao'' = Null" by code_simp
  from votacoes_outcome_not_null[of load_twice "butlast a_votacao" empty_db] n
  have "\<not> is_done (insert_into Votacoes (butlast a_votacao) empty_db)" by blast
  with a n show ?thesis by simp
qed


section \<open>The notebook: the claims about the transformation\<close>

text \<open>
  Claim C4, as the notebook has it. The cells recover from nothing. In \<^verbatim>\<open>votos_clean\<close>, one vote
  whose nested deputy is missing (\<^verbatim>\<open>None\<close>) makes the whole cell raise. A nested deputy that is
  there with a missing \<^verbatim>\<open>id\<close> does not: when the four columns are there, every nested deputy
  is a dict with a member \<^verbatim>\<open>id\<close> and every \<^verbatim>\<open>int\<close> among the ids has 64 bits, the cell returns
  a frame. When the cell returns a frame, every nested deputy had a member \<^verbatim>\<open>id\<close>, and
  \<^verbatim>\<open>deputadoId\<close> has a missing value exactly where the \<^verbatim>\<open>id\<close> is missing, and the \<^verbatim>\<open>id\<close> itself
  wherever it is not an \<^verbatim>\<open>int\<close> above \<open>2^53\<close> in magnitude (beside a missing \<^verbatim>\<open>id\<close> the column
  is \<^verbatim>\<open>float64\<close>). In \<^verbatim>\<open>detalhes_deputados_clean\<close>, a deputy whose status block is not a dict
  gets a missing value in each of the five added columns when the cell returns a frame
  (that is \<^verbatim>\<open>json_normalize\<close>), and the cell raises when no deputy of the frame has a status
  block. No cell records a warning for a missing field: a result is a frame or an
  exception, and nothing else.
\<close>

theorem transform_raises_on_missing:
  "(map_of votos_raw ''deputado_'' = Some s \<and> JNull \<in> set s \<longrightarrow>
      (\<exists>e. votos_clean votos_raw = Inl e)) \<and>
   ((\<forall>n \<in> set votos_selected. map_of votos_raw n \<noteq> None) \<and>
    map_of votos_raw ''deputado_'' = Some s' \<and>
    (\<forall>x \<in> set s'. \<exists>kvs v. x = JObj kvs \<and> map_of kvs ''id'' = Some v \<and> fits_int64 v) \<longrightarrow>
      (\<exists>out. votos_clean votos_raw = Inr out)) \<and>
   (votos_clean votos_raw = Inr out \<longrightarrow>
      (\<exists>s ids col. map_of votos_raw ''deputado_'' = Some s \<and>
         map (\<lambda>x. subscript x ''id'') s = map Inr ids \<and>
         map_of out ''deputadoId'' = Some col \<and> length col = nrows out \<and>
         (\<forall>i < length ids. i < nrows out \<longrightarrow>
            (col ! i = JNull \<longleftrightarrow> ids ! i = JNull) \<and>
            (exact_in_float64 (ids ! i) \<longrightarrow> col ! i = ids ! i)))) \<and>
   (detalhes_deputados_clean detalhes_raw = Inr out' \<and>
      map_of detalhes_raw ''ultimoStatus'' = Some st \<and>
      i < length st \<and> i < nrows out' \<and> \<not> is_dict (st ! i) \<longrightarrow>
      (\<forall>n \<in> set detalhes_added. \<exists>c. map_of out' n = Some c \<and> c ! i = JNull)) \<and>
   (map_of detalhes_raw ''ultimoStatus'' = Some st \<and> (\<forall>x \<in> set st. \<not> is_dict x) \<longrightarrow>
      (\<exists>e. detalhes_deputados_clean detalhes_raw = Inl e))"
proof (intro conjI impI ballI)
  assume a: "map_of votos_raw ''deputado_'' = Some s \<and> JNull \<in> set s"
  have "subscript JNull ''id'' = Inl TypeError" by simp
  with a show "\<exists>e. votos_clean votos_raw = Inl e"
    using votos_clean_raises by blast
next
  assume a: "(\<forall>n \<in> set votos_selected. map_of votos_raw n \<noteq> None) \<and>
    map_of votos_raw ''deputado_'' = Some s' \<and>
    (\<forall>x \<in> set s'. \<exists>kvs v. x = JObj kvs \<and> map_of kvs ''id'' = Some v \<and> fits_int64 v)"
  then have "\<forall>x \<in> set s'. \<exists>kvs v. x = JObj kvs \<and> map_of kvs ''id'' = Some v"
    by blast
  with a show "\<exists>out. votos_clean votos_raw = Inr out"
    using votos_clean_ok by blast
next
  assume "votos_clean votos_raw = Inr out"
  from votos_clean_column[OF this] obtain s ids where
    s: "map_of votos_raw ''deputado_'' = Some s" and
    ids: "map (\<lambda>x. subscript x ''id'') s = map Inr ids" and
    col: "map_of out ''deputadoId'' = Some (align (nrows out) (maybe_convert_objects ids))"
    by blast
  let ?col = "align (nrows out) (maybe_convert_objects ids)"
  have len: "length ?col = nrows out" by (rule length_align)
  have cells: "\<forall>i < length ids. i < nrows out \<longrightarrow>
            (?col ! i = JNull \<longleftrightarrow> ids ! i = JNull) \<and>
            (exact_in_float64 (ids ! i) \<longrightarrow> ?col ! i = ids ! i)"
    by (simp add: nth_align nth_maybe_convert_null nth_maybe_convert_exact)
  from s ids col len cells
  show "\<exists>s ids col. map_of votos_raw ''deputado_'' = Some s \<and>
         map (\<lambda>x. subscript x ''id'') s = map Inr ids \<and>
         map_of out ''deputadoId'' = Some col \<and> length col = nrows out \<and>
         (\<forall>i < length ids. i < nrows out \<longrightarrow>
            (col ! i = JNull \<longleftrightarrow> ids ! i = JNull) \<and>
            (exact_in_float64 (ids ! i) \<longrightarrow> col ! i = ids ! i))"
    by blast
next
  fix n
  assume "detalhes_deputados_clean detalhes_raw = Inr out' \<and>
      map_of detalhes_raw ''ultimoStatus'' = Some st \<and>
      i < length st \<and> i < nrows out' \<and> \<not> is_dict (st ! i)"
    and "n \<in> set detalhes_added"
  then show "\<exists>c. map_of out' n = Some c \<and> c ! i = JNull"
    using detalhes_missing_status by blast
next
  assume "map_of detalhes_raw ''ultimoStatus'' = Some st \<and> (\<forall>x \<in> set st. \<not> is_dict x)"
  then show "\<exists>e. detalhes_deputados_clean detalhes_raw = Inl e"
    using detalhes_no_status_raises by blast
qed

text \<open>
  The theorem on the sample frames: the votes with a missing deputy make \<^verbatim>\<open>votos_clean\<close>
  raise; the votes whose second deputy has a missing \<^verbatim>\<open>id\<close> get a missing \<^verbatim>\<open>deputadoId\<close>
  there and the \<^verbatim>\<open>id\<close> of the first; beside a missing \<^verbatim>\<open>id\<close>, the \<^verbatim>\<open>id\<close> \<open>2^53 + 1\<close> comes out
  as \<open>2^53\<close>; the deputy without a status block gets a missing \<^verbatim>\<open>telefone\<close>.
\<close>

theorem transform_raises_on_missing_witness:
  "map_of votos_without_deputy ''deputado_'' = Some [voto_deputado, JNull] \<and>
   (\<exists>e. votos_clean votos_without_deputy = Inl e) \<and>
   column_of (votos_clean votos_sample) ''deputadoId'' = Some [JNum 204554 0, JNum 74646 0] \<and>
   map (\<lambda>n. map_of votos_null_id n \<noteq> None) votos_selected = [True, True, True, True] \<and>
   (\<exists>out. votos_clean votos_null_id = Inr out) \<and>
   column_of (votos_clean votos_null_id) ''deputadoId'' = Some [JNum 204554 0, JNull] \<and>
   column_of (votos_clean votos_large_id) ''deputadoId'' =
     Some [JNum 9007199254740992 0, JNull] \<and>
   column_of (detalhes_deputados_clean detalhes_sample) ''telefone'' =
     Some [JStr ''3215-5531'', JNull]"
proof -
  have a: "map_of votos_without_deputy ''deputado_'' = Some [voto_deputado, JNull]"
    by code_simp
  have b: "column_of (votos_clean votos_sample) ''deputadoId'' =
      Some [JNum 204554 0, JNum 74646 0]"
    by code_simp
  have c: "column_of (detalhes_deputados_clean detalhes_sample) ''telefone'' =
     Some [JStr ''3215-5531'', JNull]"
    by code_simp
  have d: "\<forall>n \<in> set votos_selected. map_of votos_null_id n \<noteq> None"
    by code_simp
  have e: "map_of votos_null_id ''deputado_'' =
      Some [voto_deputado, JObj [(''id'', JNull), (''nome'', JStr ''Aecio Neves'')]]"
    by code_simp
  have f: "\<forall>x \<in> set [voto_deputado, JObj [(''id'', JNull), (''nome'', JStr ''Aecio Neves'')]].
      \<exists>kvs v. x = JObj kvs \<and> map_of kvs ''id'' = Some v \<and> fits_int64 v"
    by (simp add: voto_deputado_def)
  have g: "column_of (votos_clean votos_null_id) ''deputadoId'' = Some [JNum 204554 0, JNull]"
    by code_simp
  have h: "column_of (votos_clean votos_large_id) ''deputadoId'' =
     Some [JNum 9007199254740992 0, JNull]"
    by code_simp
  from transform_raises_on_missing[of votos_without_deputy "[voto_deputado, JNull]"] a
  have i: "\<exists>e. votos_clean votos_without_deputy = Inl e" by simp
  from transform_raises_on_missing[of votos_null_id _
      "[voto_deputado, JObj [(''id'', JNull), (''nome'', JStr ''Aecio Neves'')]]"] d e f
  have j: "\<exists>out. votos_clean votos_null_id = Inr out" by blast
  have k: "map (\<lambda>n. map_of votos_null_id n \<noteq> None) votos_selected =
      [True, True, True, True]"
    by code_simp
  from a b c g h i j k show ?thesis by simp
qed

text \<open>
  Claim C4 as written says that the transformation never raises on a missing nested deputy
  but stores an explicit null and goes on. On the sample votes whose second record has no
  nested deputy, \<^verbatim>\<open>lambda x: x['id']\<close> is applied to \<^verbatim>\<open>None\<close> and the cell ends with
  \<^verbatim>\<open>TypeError\<close>: no frame is produced.
\<close>

theorem transform_raises_counterexample:
  "map_of votos_without_deputy ''deputado_'' = Some [voto_deputado, JNull] \<and>
   votos_clean votos_without_deputy = Inl TypeError"
  by code_simp

text \<open>
  Claim C7, as the notebook and the DDL have it. When \<^verbatim>\<open>detalhes_deputados_clean\<close> returns a
  frame, its columns are the eight selected ones, unchanged (the nested \<^verbatim>\<open>ultimoStatus\<close> and the
  date strings among them), followed by five columns copied from the normalised status
  block: \<^verbatim>\<open>condicaoEleitoral\<close>, \<^verbatim>\<open>situacao\<close>, \<^verbatim>\<open>data\<close> renamed \<^verbatim>\<open>dataUltimoStatus\<close>,
  \<^verbatim>\<open>gabinete.telefone\<close> renamed \<^verbatim>\<open>telefone\<close>, and \<^verbatim>\<open>siglaPartido\<close>. When \<^verbatim>\<open>votacoes_clean\<close> returns
  a frame, it is the six selected columns unchanged, \<^verbatim>\<open>proposicaoObjeto\<close> among them. The
  schema keeps \<^verbatim>\<open>ultimo_status_gabinete\<close> and \<^verbatim>\<open>proposicao_objeto\<close> as \<^verbatim>\<open>JSONB\<close> columns.
\<close>

theorem transform_partial_flattening:
  "(detalhes_deputados_clean detalhes_raw = Inr out \<longrightarrow>
      map fst out = detalhes_selected @ detalhes_added \<and>
      (\<forall>n \<in> set detalhes_selected. map_of out n = map_of detalhes_raw n) \<and>
      (\<exists>st u. map_of detalhes_raw ''ultimoStatus'' = Some st \<and>
         json_normalize st = Inr u \<and>
         map_of out ''condicaoEleitoral'' =
           map_option (align (nrows out)) (map_of u ''condicaoEleitoral'') \<and>
         map_of out ''situacao'' = map_option (align (nrows out)) (map_of u ''situacao'') \<and>
         map_of out ''dataUltimoStatus'' = map_option (align (nrows out)) (map_of u ''data'') \<and>
         map_of out ''telefone'' =
           map_option (align (nrows out)) (map_of u ''gabinete.telefone'') \<and>
         map_of out ''siglaPartido'' =
           map_option (align (nrows out)) (map_of u ''siglaPartido''))) \<and>
   (votacoes_clean votacoes_raw = Inr out' \<longrightarrow>
      map fst out' = votacoes_selected \<and>
      (\<forall>n \<in> set votacoes_selected. map_of out' n = map_of votacoes_raw n)) \<and>
   map ctype (filter (\<lambda>c. cname c = ''ultimo_status_gabinete'') deputados) = [JSONB] \<and>
   map ctype (filter (\<lambda>c. cname c = ''proposicao_objeto'') votacoes) = [JSONB]"
proof (intro conjI impI)
  assume a: "detalhes_deputados_clean detalhes_raw = Inr out"
  from detalhes_columns[OF a] obtain st u c1 c2 c3 c4 c5 where
    st: "map_of detalhes_raw ''ultimoStatus'' = Some st" and
    u: "json_normalize st = Inr u" and
    c: "map_of u ''condicaoEleitoral'' = Some c1" "map_of u ''situacao'' = Some c2"
       "map_of u ''data'' = Some c3" "map_of u ''gabinete.telefone'' = Some c4"
       "map_of u ''siglaPartido'' = Some c5" and
    names: "map fst out = detalhes_selected @ detalhes_added" and
    sel: "\<forall>n \<in> set detalhes_selected. map_of out n = map_of detalhes_raw n" and
    new: "map_of out ''condicaoEleitoral'' = Some (align (nrows out) c1)"
    "map_of out ''situacao'' = Some (align (nrows out) c2)"
    "map_of out ''dataUltimoStatus'' = Some (align (nrows out) c3)"
    "map_of out ''telefone'' = Some (align (nrows out) c4)"
    "map_of out ''siglaPartido'' = Some (align (nrows out) c5)"
    by blast
  show "map fst out = detalhes_selected @ detalhes_added" by (rule names)
  show "\<forall>n \<in> set detalhes_selected. map_of out n = map_of detalhes_raw n" by (rule sel)
  show "\<exists>st u. map_of detalhes_raw ''ultimoStatus'' = Some st \<and>
         json_normalize st = Inr u \<and>
         map_of out ''condicaoEleitoral'' =
           map_option (align (nrows out)) (map_of u ''condicaoEleitoral'') \<and>
         map_of out ''situacao'' = map_option (align (nrows out)) (map_of u ''situacao'') \<and>
         map_of out ''dataUltimoStatus'' = map_option (align (nrows out)) (map_of u ''data'') \<and>
         map_of out ''telefone'' =
           map_option (align (nrows out)) (map_of u ''gabinete.telefone'') \<and>
         map_of out ''siglaPartido'' =
           map_option (align (nrows out)) (map_of u ''siglaPartido'')"
    by (intro exI[of _ st] exI[of _ u]) (simp add: st u c new)
next
  assume "votacoes_clean votacoes_raw = Inr out'"
  from votacoes_clean_Inr[OF this]
  show "map fst out' = votacoes_selected"
    and "\<forall>n \<in> set votacoes_selected. map_of out' n = map_of votacoes_raw n"
    by blast+
next
  show "map ctype (filter (\<lambda>c. cname c = ''ultimo_status_gabinete'') deputados) = [JSONB]"
    by (simp add: deputados_def)
  show "map ctype (filter (\<lambda>c. cname c = ''proposicao_objeto'') votacoes) = [JSONB]"
    by (simp add: votacoes_def)
qed

text \<open>
  The theorem on the sample frames: the thirteen columns of the cleaned deputies, the
  renamed status date, and the six columns of the cleaned voting sessions.
\<close>

theorem transform_partial_flattening_witness:
  "columns_of (detalhes_deputados_clean detalhes_sample) =
     [''id'', ''nomeCivil'', ''ultimoStatus'', ''dataNascimento'', ''municipioNascimento'',
      ''ufNascimento'', ''escolaridade'', ''sexo'', ''condicaoEleitoral'', ''situacao'',
      ''dataUltimoStatus'', ''telefone'', ''siglaPartido''] \<and>
   column_of (detalhes_deputados_clean detalhes_sample) ''dataUltimoStatus'' =
     Some [JStr ''2023-02-01T11:45'', JNull] \<and>
   columns_of (votacoes_clean votacoes_sample) =
     [''id'', ''data'', ''siglaOrgao'', ''proposicaoObjeto'', ''descricao'', ''aprovacao'']"
proof -
  have "\<not> isl (detalhes_deputados_clean detalhes_sample)" by code_simp
  then obtain out where out: "detalhes_deputados_clean detalhes_sample = Inr out"
    by (cases "detalhes_deputados_clean detalhes_sample") simp_all
  have "\<not> isl (votacoes_clean votacoes_sample)" by code_simp
  then obtain out' where out': "votacoes_clean votacoes_sample = Inr out'"
    by (cases "votacoes_clean votacoes_sample") simp_all
  have d: "column_of (detalhes_deputados_clean detalhes_sample) ''dataUltimoStatus'' =
     Some [JStr ''2023-02-01T11:45'', JNull]"
    by code_simp
  note th = transform_partial_flattening[of detalhes_sample out votacoes_sample out']
  from th out have "map fst out = detalhes_selected @ detalhes_added" by blast
  moreover from th out' have "map fst out' = votacoes_selected" by blast
  ultimately show ?thesis
    using d by (simp add: out out' columns_of_def detalhes_selected_def
        detalhes_added_def votacoes_selected_def)
qed

text \<open>
  Claim C7 as written says that the nested blocks are flattened entirely, that string dates
  become dates and that no nested sub-object is left in the stored row. On the sample
  frames the cleaned deputies still carry the whole \<^verbatim>\<open>ultimoStatus\<close> dict, \<^verbatim>\<open>dataNascimento\<close> is
  still a string, the status member \<^verbatim>\<open>siglaUf\<close> has no column, the cleaned voting session
  still carries its \<^verbatim>\<open>proposicaoObjeto\<close> as it came, and the store keeps a nested office in
  \<^verbatim>\<open>ultimo_status_gabinete\<close>.
\<close>

theorem transform_flattening_counterexample:
  "column_of (detalhes_deputados_clean detalhes_sample) ''ultimoStatus'' = Some [a_status, JNull] \<and>
   is_dict a_status \<and>
   column_of (detalhes_deputados_clean detalhes_sample) ''dataNascimento'' =
     Some [JStr ''1965-02-13'', JStr ''1960-03-10''] \<and>
   ''siglaUf'' \<notin> set (columns_of (detalhes_deputados_clean detalhes_sample)) \<and>
   column_of (votacoes_clean votacoes_sample) ''proposicaoObjeto'' =
     Some [JObj [(''id'', JNum 2265603 0), (''siglaTipo'', JStr ''PL'')]] \<and>
   map (\<lambda>r. get r ''ultimo_status_gabinete'')
     (rows (run [INSERT Deputados a_deputado_with_office] empty_db) Deputados) =
     [JsonV (JObj [(''nome'', JStr ''531''), (''telefone'', JStr ''3215-5531'')])]"
  by code_simp


section \<open>The Loader and the Watermark Store: the claims\<close>

text \<open>
  Claim C1, on the Loader as the specification describes it. For every entity, date range
  and store, a full extraction run twice leaves the store as one run leaves it, the
  surrogate ids and the sequence included: the second run inserts no row and changes none.
  A load never gives two rows one natural key where no two rows had one before.
\<close>

theorem full_extraction_twice:
  "full_extraction fetch shaped accepts e dates
     (full_extraction fetch shaped accepts e dates store) =
   full_extraction fetch shaped accepts e dates store \<and>
   (distinct (map natural_key (stored (store e))) \<longrightarrow>
    distinct (map natural_key
      (stored (full_extraction fetch shaped accepts e dates store e))))"
proof (intro conjI impI)
  let ?load = "load_batch shaped accepts (fetch e dates)"
  have "?load (?load (store e)) = ?load (store e)"
    by (rule load_batch_twice)
  then show "full_extraction fetch shaped accepts e dates
     (full_extraction fetch shaped accepts e dates store) =
   full_extraction fetch shaped accepts e dates store"
    by (simp add: full_extraction_def)
next
  assume "distinct (map natural_key (stored (store e)))"
  then have "distinct (map natural_key
      (stored (load_batch shaped accepts (fetch e dates) (store e))))"
    by (rule distinct_keys_load)
  then show "distinct (map natural_key
      (stored (full_extraction fetch shaped accepts e dates store e)))"
    by (simp add: full_extraction_def)
qed

text \<open>
  The theorem on a fetch of three vote records, two of them with one natural key: after two
  runs on the empty store there are two rows, the later record in the row of the shared
  key.
\<close>

theorem full_extraction_twice_witness:
  "stored (full_extraction sample_fetch any_batch any_record Vote (19723, 19737)
     (full_extraction sample_fetch any_batch any_record Vote (19723, 19737) empty_store) Vote) =
   [\<lparr>row_id = 1, natural_key = (''2265603-43'', 204554), payload = ''Abstencao''\<rparr>,
    \<lparr>row_id = 2, natural_key = (''2265603-43'', 74646), payload = ''Nao''\<rparr>] \<and>
   distinct (map natural_key (stored (empty_store Vote)))"
proof -
  have once: "stored (full_extraction sample_fetch any_batch any_record Vote (19723, 19737)
       empty_store Vote) =
   [\<lparr>row_id = 1, natural_key = (''2265603-43'', 204554), payload = ''Abstencao''\<rparr>,
    \<lparr>row_id = 2, natural_key = (''2265603-43'', 74646), payload = ''Nao''\<rparr>]"
    by (simp add: full_extraction_def load_batch_def upsert_row_def sample_fetch_def
        empty_store_def any_batch_def any_record_def write_payload_def)
  have d: "distinct (map natural_key (stored (empty_store Vote)))"
    by (simp add: empty_store_def)
  from full_extraction_twice[of sample_fetch any_batch any_record Vote "(19723, 19737)" empty_store]
  have "full_extraction sample_fetch any_batch any_record Vote (19723, 19737)
     (full_extraction sample_fetch any_batch any_record Vote (19723, 19737) empty_store) =
   full_extraction sample_fetch any_batch any_record Vote (19723, 19737) empty_store"
    by (rule conjunct1)
  with once d show ?thesis by simp
qed





end
